theory Spec2Isabelle
  imports Complex_Main "HOL-Library.Log_Nat"
begin

section \<open>The URL shortening worker of main.py\<close>

text \<open>
  The theory embeds \<^verbatim>\<open>ShortenWorker.run\<close> of \<^verbatim>\<open>src/main.py\<close>. The worker
  talks to three libraries: the spreadsheet library (load, read and write cells, save),
  the HTTP library (one GET per URL) and the signal mechanism of the GUI toolkit. What
  the libraries answer is an input of the model (record \<open>env\<close> below); what the worker
  does with the answers is translated line by line. Every signal the worker emits, every
  HTTP request and the call of \<^verbatim>\<open>workbook.save\<close> is recorded, in order, in a trace.
\<close>

subsection \<open>Python values\<close>

text \<open>
  The scalar values a cell or a field of the JSON answer can hold: \<^verbatim>\<open>None\<close>, a
  \<^verbatim>\<open>bool\<close>, an \<^verbatim>\<open>int\<close> or a \<^verbatim>\<open>str\<close>. Floating point numbers, dates and
  nested JSON values are outside the model.
\<close>

datatype pyval = PNone | PBool bool | PInt int | PStr string

text \<open>Python's truth value, as tested by \<^verbatim>\<open>if cell.value:\<close>.\<close>

fun truthy :: "pyval \<Rightarrow> bool" where
  "truthy PNone = False"
| "truthy (PBool b) = b"
| "truthy (PInt n) = (n \<noteq> 0)"
| "truthy (PStr s) = (s \<noteq> [])"

subsection \<open>The worksheet\<close>

text \<open>
  The active sheet: its last row and the value of every cell, addressed by
  (row, column) as in \<^verbatim>\<open>sheet.cell(row=r, column=c)\<close>; an empty cell holds
  \<^verbatim>\<open>None\<close>.
\<close>

record workbook =
  max_row :: nat
  cells :: "nat \<times> nat \<Rightarrow> pyval"

text \<open>
  \<^verbatim>\<open>sheet.iter_rows(min_row=2, min_col=2, max_col=2)\<close> yields, for each row from 2 to
  the last one, the single cell of column 2. A cell object is identified by its row.
\<close>

definition iter_rows :: "workbook \<Rightarrow> nat list" where
  "iter_rows wb = [2 ..< Suc (max_row wb)]"

definition urls_to_shorten :: "workbook \<Rightarrow> nat list" where
  "urls_to_shorten wb = filter (\<lambda>r. truthy (cells wb (r, 2))) (iter_rows wb)"

subsection \<open>Exceptions and the answers of the libraries\<close>

text \<open>
  The handlers of \<^verbatim>\<open>run\<close> tell three kinds of exception apart:
  \<^verbatim>\<open>FileNotFoundError\<close>, \<^verbatim>\<open>requests.RequestException\<close> and every other
  \<^verbatim>\<open>Exception\<close>. Each carries the text that \<^verbatim>\<open>{e}\<close> prints.
\<close>

datatype exn = FileNotFoundError string | RequestException string | OtherException string

fun exn_text :: "exn \<Rightarrow> string" where
  "exn_text (FileNotFoundError m) = m"
| "exn_text (RequestException m) = m"
| "exn_text (OtherException m) = m"

text \<open>
  Assigning to \<^verbatim>\<open>.value\<close> of a cell. The spreadsheet library stores \<^verbatim>\<open>None\<close>, a
  \<^verbatim>\<open>bool\<close> or an \<^verbatim>\<open>int\<close> as it is. A \<^verbatim>\<open>str\<close> is first cut to its first 32767
  characters; if one of the characters left is a control character other than tab, line
  feed and carriage return (the codes 0 to 8, 11, 12 and 14 to 31), the assignment raises
  \<^verbatim>\<open>IllegalCharacterError\<close>, which is neither a \<^verbatim>\<open>FileNotFoundError\<close> nor a
  \<^verbatim>\<open>RequestException\<close>, and the cell keeps its value. Every \<open>char\<close> of a string stands
  for one character of the Python string.
\<close>

definition illegal_character :: "char \<Rightarrow> bool" where
  "illegal_character c =
     (let n = (of_char c :: nat) in n \<le> 8 \<or> n = 11 \<or> n = 12 \<or> (14 \<le> n \<and> n \<le> 31))"

definition check_string :: "string \<Rightarrow> exn + string" where
  "check_string s =
     (let v = take 32767 s
      in if list_ex illegal_character v
         then Inl (OtherException (v @ '' cannot be used in worksheets.''))
         else Inr v)"

fun bind_value :: "pyval \<Rightarrow> exn + pyval" where
  "bind_value (PStr s) = (case check_string s of Inl x \<Rightarrow> Inl x | Inr v \<Rightarrow> Inr (PStr v))"
| "bind_value v = Inr v"

text \<open>
  \<^verbatim>\<open>sheet.cell(row=cell.row, column=3).value = short_url\<close>: the exception the
  assignment raises, or the sheet with the value stored.
\<close>

definition set_output :: "workbook \<Rightarrow> nat \<Rightarrow> pyval \<Rightarrow> exn + workbook" where
  "set_output wb r v =
     (case bind_value v of
        Inl x \<Rightarrow> Inl x
      | Inr v' \<Rightarrow> Inr (wb\<lparr>cells := (cells wb)((r, 3) := v')\<rparr>))"

text \<open>
  What \<^verbatim>\<open>response.json()\<close> returns: a dictionary (the key and value pairs of a JSON
  object) or a value of another Python type (a list, a string, a number, \<^verbatim>\<open>None\<close>),
  named by its type. Only a dictionary has the method \<^verbatim>\<open>get\<close>.
\<close>

datatype json = JObject "(string \<times> pyval) list" | JNonObject string

text \<open>\<^verbatim>\<open>d.get(k)\<close>: the value of the key, \<^verbatim>\<open>None\<close> when the key is missing.\<close>

definition py_get :: "(string \<times> pyval) list \<Rightarrow> string \<Rightarrow> pyval" where
  "py_get d k = (case map_of d k of None \<Rightarrow> PNone | Some v \<Rightarrow> v)"

text \<open>
  Python prints the names of types and attributes in single quotes. Calling
  \<^verbatim>\<open>get\<close> on a value that is not a dictionary raises \<^verbatim>\<open>AttributeError\<close>.
\<close>

definition quoted :: "string \<Rightarrow> string" where
  "quoted s = CHR 0x27 # s @ [CHR 0x27]"

definition attribute_error :: "string \<Rightarrow> exn" where
  "attribute_error ty =
     OtherException (quoted ty @ '' object has no attribute '' @ quoted ''get'')"

text \<open>
  The environment of one run:
  \<^item> \<open>load_workbook\<close>: what \<^verbatim>\<open>openpyxl.load_workbook(self.filepath)\<close> does, an
    exception or the workbook read from the file;
  \<^item> \<open>http_get r\<close>: what \<^verbatim>\<open>requests.get(api_url)\<close> followed by
    \<^verbatim>\<open>response.json()\<close> does for the URL of row \<open>r\<close> (every row is requested at most
    once), an exception or the decoded answer;
  \<^item> \<open>save_error\<close>: the exception \<^verbatim>\<open>workbook.save\<close> raises, if any;
  \<^item> \<open>stop_after\<close>: when the user calls \<^verbatim>\<open>stop()\<close>. The worker reads
    \<^verbatim>\<open>self.is_running\<close> once at the top of every loop iteration and once after the
    loop; \<open>Some k\<close> says that the first \<open>k\<close> reads see \<^verbatim>\<open>True\<close> and every later
    one sees \<^verbatim>\<open>False\<close> (the flag is never set back), \<open>None\<close> that \<^verbatim>\<open>stop()\<close>
    is never called.
\<close>

record env =
  load_workbook :: "exn + workbook"
  http_get :: "nat \<Rightarrow> exn + json"
  save_error :: "exn option"
  stop_after :: "nat option"

subsection \<open>Signals and the trace\<close>

text \<open>
  The texts of the signals are kept as constructors, one for each message of the source:
  \<^item> \<open>CurrentUrl url\<close> is the URL shown beside the progress bar, \<open>TextDone\<close> the
    closing text of \<^verbatim>\<open>progress_updated.emit(100, ...)\<close>;
  \<^item> \<open>LogSuccess url short_url\<close>, \<open>LogFailure url error_message\<close> (\<open>None\<close> stands
    for the default text of \<^verbatim>\<open>response_json.get("error", ...)\<close>),
    \<open>LogRequestError url e\<close> and \<open>LogError url e\<close> are the four lines of
    \<^verbatim>\<open>log_updated\<close>;
  \<^item> \<open>NoUrlsFound\<close>, \<open>Completed save_path\<close>, \<open>Interrupted\<close>, \<open>FileNotFound\<close>
    and \<open>Unexpected e\<close> are the five messages of \<^verbatim>\<open>finished\<close>.
\<close>

datatype progress_text = CurrentUrl string | TextDone

datatype log_line =
    LogSuccess string pyval
  | LogFailure string "pyval option"
  | LogRequestError string string
  | LogError string string

datatype fin_msg = NoUrlsFound | Completed string | Interrupted | FileNotFound | Unexpected string

datatype event =
    Progress int progress_text
  | HttpGet string
  | Log log_line
  | SaveWorkbook string
  | Finished fin_msg

record worker_state =
  sheet :: workbook
  trace :: "event list"
  checks :: nat

definition emit :: "event \<Rightarrow> worker_state \<Rightarrow> worker_state" where
  "emit ev s = s\<lparr>trace := trace s @ [ev]\<rparr>"

definition is_running :: "env \<Rightarrow> nat \<Rightarrow> bool" where
  "is_running e j = (case stop_after e of None \<Rightarrow> True | Some k \<Rightarrow> j < k)"

subsection \<open>The percentage of the progress bar\<close>

text \<open>
  \<^verbatim>\<open>int((i / total_urls) * 100)\<close> is computed in binary64 floating point: the quotient
  of the two integers is rounded to the nearest double, the product with 100 is rounded
  again, and \<^verbatim>\<open>int\<close> cuts the fraction off. \<open>to_double\<close> rounds a rational number
  to 53 significant bits, ties to even; the exponent is not bounded, which makes no
  difference for the quotients of list positions and list lengths.
\<close>

definition round_half_even :: "rat \<Rightarrow> int" where
  "round_half_even x =
     (let n = \<lfloor>x\<rfloor>; d = x - of_int n
      in if d < 1 / 2 then n else if 1 / 2 < d then n + 1 else if even n then n else n + 1)"

definition binade :: "rat \<Rightarrow> int" where
  "binade x =
     (let (p, q) = quotient_of x; c = bitlen p - bitlen q
      in if 2 powi c \<le> x then c else c - 1)"

definition to_double :: "rat \<Rightarrow> rat" where
  "to_double x =
     (if x = 0 then 0
      else let a = \<bar>x\<bar>; e = binade a
           in sgn x * of_int (round_half_even (a * 2 powi (52 - e))) * 2 powi (e - 52))"

definition py_int :: "rat \<Rightarrow> int" where
  "py_int x = (if 0 \<le> x then \<lfloor>x\<rfloor> else \<lceil>x\<rceil>)"

definition percent :: "nat \<Rightarrow> nat \<Rightarrow> int" where
  "percent i total_urls = py_int (to_double (to_double (of_nat i / of_nat total_urls) * 100))"

subsection \<open>One row\<close>

definition api_url :: "string \<Rightarrow> string \<Rightarrow> string" where
  "api_url url api_key = ''https://xgd.io/V1/shorten?url='' @ url @ ''&key='' @ api_key"

text \<open>The two handlers of the inner \<^verbatim>\<open>try\<close>.\<close>

fun row_handler :: "string \<Rightarrow> exn \<Rightarrow> log_line" where
  "row_handler url (RequestException m) = LogRequestError url m"
| "row_handler url x = LogError url (exn_text x)"

text \<open>
  The inner \<^verbatim>\<open>try\<close> statement, for the URL cell of row \<open>r\<close>. An exception raised
  by the request, by \<^verbatim>\<open>response_json.get\<close> or by the assignment to the output cell
  goes to the handlers; the success line is logged after the assignment, with the value of
  \<^verbatim>\<open>short_url\<close> as the answer gave it.
\<close>

definition shorten_cell :: "string \<Rightarrow> env \<Rightarrow> nat \<Rightarrow> string \<Rightarrow> worker_state \<Rightarrow> worker_state" where
  "shorten_cell api_key e r url s =
     (let s1 = emit (HttpGet (api_url url api_key)) s
      in case http_get e r of
           Inl x \<Rightarrow> emit (Log (row_handler url x)) s1
         | Inr (JNonObject ty) \<Rightarrow> emit (Log (row_handler url (attribute_error ty))) s1
         | Inr (JObject response_json) \<Rightarrow>
             if py_get response_json ''status'' = PInt 200
             then let short_url = py_get response_json ''shorturl''
                  in (case set_output (sheet s1) r short_url of
                        Inl x \<Rightarrow> emit (Log (row_handler url x)) s1
                      | Inr wb \<Rightarrow> emit (Log (LogSuccess url short_url)) (s1\<lparr>sheet := wb\<rparr>))
             else let error_message = map_of response_json ''error''
                  in emit (Log (LogFailure url error_message)) s1)"

subsection \<open>The loop\<close>

text \<open>
  \<^verbatim>\<open>progress_updated\<close> is declared as \<^verbatim>\<open>pyqtSignal(int, str)\<close>: emitting it with a
  cell value that is not a \<^verbatim>\<open>str\<close> raises \<^verbatim>\<open>TypeError\<close>, outside the inner
  \<^verbatim>\<open>try\<close>. The text of the exception names the class, the signal and the type of
  the value.
\<close>

fun type_name :: "pyval \<Rightarrow> string" where
  "type_name PNone = ''NoneType''"
| "type_name (PBool b) = ''bool''"
| "type_name (PInt n) = ''int''"
| "type_name (PStr s) = ''str''"

definition emit_type_error :: "pyval \<Rightarrow> exn" where
  "emit_type_error v =
     OtherException (''ShortenWorker.progress_updated[int, str].emit(): argument 2 has unexpected type ''
                       @ quoted (type_name v))"

text \<open>
  The \<^verbatim>\<open>for i, cell in enumerate(urls_to_shorten)\<close> loop. The result is the exception
  that left the loop, if any, and the state reached.
\<close>

fun process_cells ::
  "string \<Rightarrow> env \<Rightarrow> nat \<Rightarrow> nat \<Rightarrow> nat list \<Rightarrow> worker_state \<Rightarrow> exn option \<times> worker_state" where
  "process_cells api_key e total_urls i [] s = (None, s)"
| "process_cells api_key e total_urls i (r # rs) s =
     (let s0 = s\<lparr>checks := Suc (checks s)\<rparr>
      in if \<not> is_running e (checks s) then (None, s0)
         else (case cells (sheet s0) (r, 2) of
                 PStr url \<Rightarrow>
                   process_cells api_key e total_urls (Suc i) rs
                     (shorten_cell api_key e r url
                        (emit (Progress (percent i total_urls) (CurrentUrl url)) s0))
               | _ \<Rightarrow> (Some (emit_type_error (cells (sheet s0) (r, 2))), s0)))"

subsection \<open>The run\<close>

text \<open>The two handlers of the outer \<^verbatim>\<open>try\<close>.\<close>

fun run_handler :: "exn \<Rightarrow> fin_msg" where
  "run_handler (FileNotFoundError m) = FileNotFound"
| "run_handler x = Unexpected (exn_text x)"

text \<open>
  What a run leaves behind: the trace, the workbook in memory (if one was loaded) and the
  workbook written to the file by a call of \<^verbatim>\<open>workbook.save\<close> that returned.
\<close>

record result =
  events :: "event list"
  memory :: "workbook option"
  saved :: "workbook option"

text \<open>
  The body of the outer \<^verbatim>\<open>try\<close>: the exception that leaves it, if any, and what has
  happened until then. Nothing is known about the file after a call of
  \<^verbatim>\<open>workbook.save\<close> that raised, so \<open>saved\<close> records completed calls only.
\<close>

definition run_body :: "string \<Rightarrow> string \<Rightarrow> env \<Rightarrow> exn option \<times> result" where
  "run_body filepath api_key e =
     (case load_workbook e of
        Inl x \<Rightarrow> (Some x, \<lparr>events = [], memory = None, saved = None\<rparr>)
      | Inr wb \<Rightarrow>
          let urls = urls_to_shorten wb; total_urls = length urls
          in if total_urls = 0
             then (None, \<lparr>events = [Finished NoUrlsFound], memory = Some wb, saved = None\<rparr>)
             else (case process_cells api_key e total_urls 0 urls
                          \<lparr>sheet = wb, trace = [], checks = 0\<rparr> of
                     (Some x, s) \<Rightarrow>
                       (Some x, \<lparr>events = trace s, memory = Some (sheet s), saved = None\<rparr>)
                   | (None, s) \<Rightarrow>
                       let s1 = emit (Progress 100 TextDone) s
                       in if is_running e (checks s1)
                          then let s2 = emit (SaveWorkbook filepath) s1
                               in (case save_error e of
                                     Some x \<Rightarrow>
                                       (Some x, \<lparr>events = trace s2, memory = Some (sheet s2),
                                                 saved = None\<rparr>)
                                   | None \<Rightarrow>
                                       (None, \<lparr>events = trace s2 @ [Finished (Completed filepath)],
                                               memory = Some (sheet s2),
                                               saved = Some (sheet s2)\<rparr>))
                          else (None, \<lparr>events = trace s1 @ [Finished Interrupted],
                                       memory = Some (sheet s1), saved = None\<rparr>)))"

text \<open>\<^verbatim>\<open>ShortenWorker.run\<close>: the body and the handlers of the outer \<^verbatim>\<open>try\<close>.\<close>

definition run :: "string \<Rightarrow> string \<Rightarrow> env \<Rightarrow> result" where
  "run filepath api_key e =
     (case run_body filepath api_key e of
        (None, res) \<Rightarrow> res
      | (Some x, res) \<Rightarrow> res\<lparr>events := events res @ [Finished (run_handler x)]\<rparr>)"

text \<open>The signals of each kind, the requests and the saves of a trace, in order.\<close>

fun progress_of :: "event \<Rightarrow> (int \<times> progress_text) option" where
  "progress_of (Progress p t) = Some (p, t)"
| "progress_of _ = None"

fun request_of :: "event \<Rightarrow> string option" where
  "request_of (HttpGet u) = Some u"
| "request_of _ = None"

fun log_of :: "event \<Rightarrow> log_line option" where
  "log_of (Log l) = Some l"
| "log_of _ = None"

fun finished_of :: "event \<Rightarrow> fin_msg option" where
  "finished_of (Finished m) = Some m"
| "finished_of _ = None"

fun save_of :: "event \<Rightarrow> string option" where
  "save_of (SaveWorkbook p) = Some p"
| "save_of _ = None"

definition progress_events :: "result \<Rightarrow> (int \<times> progress_text) list" where
  "progress_events res = List.map_filter progress_of (events res)"

definition requests :: "result \<Rightarrow> string list" where
  "requests res = List.map_filter request_of (events res)"

definition log_lines :: "result \<Rightarrow> log_line list" where
  "log_lines res = List.map_filter log_of (events res)"

definition finished_messages :: "result \<Rightarrow> fin_msg list" where
  "finished_messages res = List.map_filter finished_of (events res)"

definition save_calls :: "result \<Rightarrow> string list" where
  "save_calls res = List.map_filter save_of (events res)"

subsection \<open>Auxiliary notions for the proofs\<close>

text \<open>
  The rows the loop gets through (\<open>visited\<close>), the log line and the write of one row, the
  trace of the loop over given rows, the events after the loop (\<open>z\<close> is the exception of
  the progress signal, should the loop end with it) and the cells after the writes of
  given rows. They describe the functions above and are related to them by the
  lemmas of the next section.
\<close>

definition url_text :: "workbook \<Rightarrow> nat \<Rightarrow> string" where
  "url_text wb r = (case cells wb (r, 2) of PStr url \<Rightarrow> url | _ \<Rightarrow> [])"

definition row_log :: "env \<Rightarrow> nat \<Rightarrow> string \<Rightarrow> log_line" where
  "row_log e r url =
     (case http_get e r of
        Inl x \<Rightarrow> row_handler url x
      | Inr (JNonObject ty) \<Rightarrow> row_handler url (attribute_error ty)
      | Inr (JObject d) \<Rightarrow>
          if py_get d ''status'' = PInt 200
          then (case bind_value (py_get d ''shorturl'') of
                  Inl x \<Rightarrow> row_handler url x
                | Inr v \<Rightarrow> LogSuccess url (py_get d ''shorturl''))
          else LogFailure url (map_of d ''error''))"

definition row_write :: "env \<Rightarrow> nat \<Rightarrow> pyval option" where
  "row_write e r =
     (case http_get e r of
        Inr (JObject d) \<Rightarrow>
          if py_get d ''status'' = PInt 200
          then (case bind_value (py_get d ''shorturl'') of Inl x \<Rightarrow> None | Inr v \<Rightarrow> Some v)
          else None
      | _ \<Rightarrow> None)"

fun visited :: "env \<Rightarrow> workbook \<Rightarrow> nat \<Rightarrow> nat list \<Rightarrow> nat list" where
  "visited e wb c [] = []"
| "visited e wb c (r # rs) =
     (if is_running e c
      then (case cells wb (r, 2) of PStr url \<Rightarrow> r # visited e wb (Suc c) rs | _ \<Rightarrow> [])
      else [])"

fun loop_trace :: "string \<Rightarrow> env \<Rightarrow> nat \<Rightarrow> nat \<Rightarrow> workbook \<Rightarrow> nat list \<Rightarrow> event list" where
  "loop_trace key e n i wb [] = []"
| "loop_trace key e n i wb (r # rs) =
     [Progress (percent i n) (CurrentUrl (url_text wb r)),
      HttpGet (api_url (url_text wb r) key),
      Log (row_log e r (url_text wb r))] @ loop_trace key e n (Suc i) wb rs"

definition run_tail :: "string \<Rightarrow> env \<Rightarrow> exn \<Rightarrow> nat \<Rightarrow> nat \<Rightarrow> event list" where
  "run_tail filepath e z n k =
     (if k < n \<and> is_running e k then [Finished (run_handler z)]
      else if is_running e n
      then [Progress 100 TextDone, SaveWorkbook filepath,
            Finished (case save_error e of None \<Rightarrow> Completed filepath | Some x \<Rightarrow> run_handler x)]
      else [Progress 100 TextDone, Finished Interrupted])"

definition written :: "env \<Rightarrow> (nat \<times> nat \<Rightarrow> pyval) \<Rightarrow> nat list \<Rightarrow> nat \<times> nat \<Rightarrow> pyval" where
  "written e f vs =
     (\<lambda>(r, c). if c = 3 \<and> r \<in> set vs
                then (case row_write e r of None \<Rightarrow> f (r, c) | Some v \<Rightarrow> v)
                else f (r, c))"

subsection \<open>Example inputs\<close>

text \<open>
  The example of the specification: column B holds two URLs in rows 2 and 3, the service
  answers status 200 with a short URL for the first and status 400 with an error for the
  second, and nobody stops the worker.
\<close>

definition example_workbook :: workbook where
  "example_workbook =
     \<lparr>max_row = 3,
      cells = (\<lambda>_. PNone)((2, 2) := PStr ''http://a.com'', (3, 2) := PStr ''http://b.com'')\<rparr>"

definition example_env :: env where
  "example_env =
     \<lparr>load_workbook = Inr example_workbook,
      http_get = (\<lambda>_. Inl (RequestException ''unreachable''))
        (2 := Inr (JObject [(''status'', PInt 200), (''shorturl'', PStr ''http://x/1'')]),
         3 := Inr (JObject [(''status'', PInt 400), (''error'', PStr ''bad url'')])),
      save_error = None,
      stop_after = None\<rparr>"

text \<open>A sheet whose URL column holds only values that count as false.\<close>

definition falsy_workbook :: workbook where
  "falsy_workbook =
     \<lparr>max_row = 4,
      cells = (\<lambda>_. PNone)((2, 2) := PInt 0, (3, 2) := PBool False, (4, 2) := PStr [])\<rparr>"

definition falsy_env :: env where
  "falsy_env =
     \<lparr>load_workbook = Inr falsy_workbook,
      http_get = (\<lambda>_. Inl (RequestException ''unreachable'')),
      save_error = None,
      stop_after = None\<rparr>"

text \<open>
  One URL in row 2, an old value in its output cell, and an answer with status 200 that
  has no field \<^verbatim>\<open>shorturl\<close>.
\<close>

definition bare_workbook :: workbook where
  "bare_workbook =
     \<lparr>max_row = 2,
      cells = (\<lambda>_. PNone)((2, 2) := PStr ''http://a.com'', (2, 3) := PStr ''old'')\<rparr>"

definition bare_env :: env where
  "bare_env =
     \<lparr>load_workbook = Inr bare_workbook,
      http_get = (\<lambda>_. Inr (JObject [(''status'', PInt 200)])),
      save_error = None,
      stop_after = None\<rparr>"

text \<open>The example input with the first answer replaced by a network error.\<close>

definition offline_env :: env where
  "offline_env = example_env\<lparr>http_get := (http_get example_env)(2 := Inl (RequestException ''timeout''))\<rparr>"

text \<open>The example input, stopped after the first row.\<close>

definition stopped_env :: env where
  "stopped_env = example_env\<lparr>stop_after := Some 1\<rparr>"

text \<open>A sheet with the number 0 in B2 and a URL in B3.\<close>

definition mixed_workbook :: workbook where
  "mixed_workbook =
     \<lparr>max_row = 3, cells = (\<lambda>_. PNone)((2, 2) := PInt 0, (3, 2) := PStr ''http://b.com'')\<rparr>"

definition mixed_env :: env where
  "mixed_env = example_env\<lparr>load_workbook := Inr mixed_workbook\<rparr>"

text \<open>The example input with a list as the first answer, which has no method \<^verbatim>\<open>get\<close>.\<close>

definition garbled_env :: env where
  "garbled_env = example_env\<lparr>http_get := (http_get example_env)(2 := Inr (JNonObject ''list''))\<rparr>"

text \<open>The example input with a file that cannot be written.\<close>

definition locked_env :: env where
  "locked_env = example_env\<lparr>save_error := Some (OtherException ''permission denied'')\<rparr>"

text \<open>
  One URL in row 2, an old value in its output cell, and an answer with status 200 whose
  short URL ends with the control character of code 1.
\<close>

definition control_env :: env where
  "control_env =
     bare_env\<lparr>http_get :=
       (\<lambda>_. Inr (JObject [(''status'', PInt 200),
                           (''shorturl'', PStr (''http://x/'' @ [CHR 0x01]))]))\<rparr>"

text \<open>A sheet with a URL in B2 and the number 42 in B3, and the answers of the example.\<close>

definition numeric_workbook :: workbook where
  "numeric_workbook =
     \<lparr>max_row = 3, cells = (\<lambda>_. PNone)((2, 2) := PStr ''http://a.com'', (3, 2) := PInt 42)\<rparr>"

definition numeric_env :: env where
  "numeric_env = example_env\<lparr>load_workbook := Inr numeric_workbook\<rparr>"

text \<open>A file that is not a workbook.\<close>

definition broken_env :: env where
  "broken_env = example_env\<lparr>load_workbook := Inl (OtherException ''File is not a zip file'')\<rparr>"

section \<open>The loop and the run, characterised\<close>

lemma take_short: "length s \<le> n \<Longrightarrow> take n s = s"
  by simp

lemma bind_value_plain:
  "length s \<le> 32767 \<Longrightarrow> \<not> list_ex illegal_character s \<Longrightarrow> bind_value (PStr s) = Inr (PStr s)"
  by (simp add: check_string_def)

lemma bind_value_accepts:
  "bind_value v = Inr v \<longleftrightarrow>
     (\<forall>s. v = PStr s \<longrightarrow> length s \<le> 32767 \<and> \<not> list_ex illegal_character s)"
proof (cases v)
  case (PStr s)
  have "take 32767 s = s \<longleftrightarrow> length s \<le> 32767"
    by (metis take_all_iff)
  then show ?thesis using PStr by (auto simp: check_string_def Let_def)
qed simp_all

lemma bind_value_stored:
  "bind_value v = Inr v' \<Longrightarrow> v' = (case v of PStr s \<Rightarrow> PStr (take 32767 s) | _ \<Rightarrow> v)"
  by (cases v) (auto simp: check_string_def Let_def split: if_splits)

lemma bind_value_raises:
  "bind_value v = Inl x \<longleftrightarrow>
     (\<exists>s. v = PStr s \<and> list_ex illegal_character (take 32767 s) \<and>
          x = OtherException (take 32767 s @ '' cannot be used in worksheets.''))"
  by (cases v) (auto simp: check_string_def Let_def split: if_splits)

lemma bind_value_handler: "bind_value v = Inl x \<Longrightarrow> row_handler url x = LogError url (exn_text x)"
  by (auto simp: bind_value_raises)

lemma shorten_cell_trace:
  "trace (shorten_cell key e r url s) = trace s @ [HttpGet (api_url url key), Log (row_log e r url)]"
  by (simp add: shorten_cell_def row_log_def set_output_def emit_def Let_def
           split: sum.splits json.splits)

lemma shorten_cell_checks: "checks (shorten_cell key e r url s) = checks s"
  by (simp add: shorten_cell_def set_output_def emit_def Let_def split: sum.splits json.splits)

lemma shorten_cell_sheet:
  "sheet (shorten_cell key e r url s) =
     (case row_write e r of
        None \<Rightarrow> sheet s
      | Some v \<Rightarrow> (sheet s)\<lparr>cells := (cells (sheet s))((r, 3) := v)\<rparr>)"
  by (simp add: shorten_cell_def row_write_def set_output_def emit_def Let_def
           split: sum.splits json.splits)

lemma shorten_cell_column2:
  "cells (sheet (shorten_cell key e r url s)) (r', 2) = cells (sheet s) (r', 2)"
  by (simp add: shorten_cell_sheet split: option.splits)

lemma is_running_mono: "is_running e j \<Longrightarrow> i \<le> j \<Longrightarrow> is_running e i"
  by (auto simp: is_running_def split: option.splits)

lemma visited_prefix: "visited e wb c rs = take (length (visited e wb c rs)) rs"
  by (induction rs arbitrary: c) (auto split: pyval.splits)

lemma visited_length: "length (visited e wb c rs) \<le> length rs"
  by (induction rs arbitrary: c) (auto split: pyval.splits)

lemma visited_str: "r \<in> set (visited e wb c rs) \<Longrightarrow> \<exists>url. cells wb (r, 2) = PStr url"
proof (induction rs arbitrary: c)
  case Nil
  then show ?case by simp
next
  case (Cons a rs)
  show ?case
  proof (cases "is_running e c")
    case False
    with Cons.prems show ?thesis by simp
  next
    case True
    show ?thesis
    proof (cases "cells wb (a, 2)")
      case (PStr url)
      with True Cons.prems have "r = a \<or> r \<in> set (visited e wb (Suc c) rs)" by simp
      then show ?thesis using PStr Cons.IH by blast
    qed (use True Cons.prems in simp_all)
  qed
qed

lemma process_cells_trace:
  "\<forall>r. cells (sheet s) (r, 2) = cells wb (r, 2) \<Longrightarrow>
   trace (snd (process_cells key e n i rs s)) =
     trace s @ loop_trace key e n i wb (visited e wb (checks s) rs)"
proof (induction rs arbitrary: i s)
  case Nil
  then show ?case by simp
next
  case (Cons r rs)
  show ?case
  proof (cases "is_running e (checks s)")
    case False
    then show ?thesis by (simp add: Let_def)
  next
    case True
    show ?thesis
    proof (cases "cells wb (r, 2)")
      case (PStr url)
      let ?s1 = "shorten_cell key e r url
                   (emit (Progress (percent i n) (CurrentUrl url)) (s\<lparr>checks := Suc (checks s)\<rparr>))"
      have col: "\<forall>r. cells (sheet ?s1) (r, 2) = cells wb (r, 2)"
        using Cons.prems by (simp add: shorten_cell_column2 emit_def)
      have "trace (snd (process_cells key e n (Suc i) rs ?s1)) =
              trace ?s1 @ loop_trace key e n (Suc i) wb (visited e wb (checks ?s1) rs)"
        by (rule Cons.IH [OF col])
      then show ?thesis
        using True PStr Cons.prems
        by (simp add: Let_def shorten_cell_trace shorten_cell_checks emit_def url_text_def)
    qed (use True Cons.prems in \<open>simp_all add: Let_def\<close>)
  qed
qed

lemma process_cells_cells:
  "\<forall>r. cells (sheet s) (r, 2) = cells wb (r, 2) \<Longrightarrow>
   cells (sheet (snd (process_cells key e n i rs s))) =
     written e (cells (sheet s)) (visited e wb (checks s) rs)"
proof (induction rs arbitrary: i s)
  case Nil
  then show ?case by (simp add: written_def fun_eq_iff)
next
  case (Cons r rs)
  show ?case
  proof (cases "is_running e (checks s)")
    case False
    then show ?thesis by (simp add: Let_def written_def fun_eq_iff)
  next
    case True
    show ?thesis
    proof (cases "cells wb (r, 2)")
      case (PStr url)
      let ?s1 = "shorten_cell key e r url
                   (emit (Progress (percent i n) (CurrentUrl url)) (s\<lparr>checks := Suc (checks s)\<rparr>))"
      have col: "\<forall>r. cells (sheet ?s1) (r, 2) = cells wb (r, 2)"
        using Cons.prems by (simp add: shorten_cell_column2 emit_def)
      have ih: "cells (sheet (snd (process_cells key e n (Suc i) rs ?s1))) =
              written e (cells (sheet ?s1)) (visited e wb (checks ?s1) rs)"
        by (rule Cons.IH [OF col])
      have s1: "cells (sheet ?s1) =
          (case row_write e r of None \<Rightarrow> cells (sheet s) | Some v \<Rightarrow> (cells (sheet s))((r, 3) := v))"
        by (simp add: shorten_cell_sheet emit_def split: option.splits)
      have "written e (cells (sheet ?s1)) (visited e wb (Suc (checks s)) rs) =
            written e (cells (sheet s)) (r # visited e wb (Suc (checks s)) rs)"
        unfolding s1 by (cases "row_write e r") (auto simp: written_def fun_eq_iff split: option.splits)
      then show ?thesis
        using True PStr Cons.prems ih
        by (simp add: Let_def shorten_cell_checks emit_def)
    qed (use True Cons.prems in \<open>simp_all add: Let_def written_def fun_eq_iff\<close>)
  qed
qed

lemma shorten_cell_max_row: "max_row (sheet (shorten_cell key e r url s)) = max_row (sheet s)"
  by (simp add: shorten_cell_sheet split: option.splits)

lemma process_cells_max_row:
  "max_row (sheet (snd (process_cells key e n i rs s))) = max_row (sheet s)"
proof (induction rs arbitrary: i s)
  case Nil
  then show ?case by simp
next
  case (Cons r rs)
  show ?case
    by (cases "cells (sheet s) (r, 2)")
       (simp_all add: Let_def Cons.IH shorten_cell_max_row emit_def)
qed

lemma process_cells_exn:
  "\<forall>r. cells (sheet s) (r, 2) = cells wb (r, 2) \<Longrightarrow>
   fst (process_cells key e n i rs s) =
     (let k = length (visited e wb (checks s) rs)
      in if k < length rs \<and> is_running e (checks s + k)
         then Some (emit_type_error (cells wb (rs ! k, 2))) else None)"
proof (induction rs arbitrary: i s)
  case Nil
  then show ?case by simp
next
  case (Cons r rs)
  show ?case
  proof (cases "is_running e (checks s)")
    case False
    then show ?thesis by (simp add: Let_def)
  next
    case True
    show ?thesis
    proof (cases "cells wb (r, 2)")
      case (PStr url)
      let ?s1 = "shorten_cell key e r url
                   (emit (Progress (percent i n) (CurrentUrl url)) (s\<lparr>checks := Suc (checks s)\<rparr>))"
      have col: "\<forall>r. cells (sheet ?s1) (r, 2) = cells wb (r, 2)"
        using Cons.prems by (simp add: shorten_cell_column2 emit_def)
      show ?thesis
        using True PStr Cons.prems Cons.IH [OF col, of "Suc i"]
        by (simp add: Let_def shorten_cell_checks emit_def)
    qed (use True Cons.prems in \<open>simp_all add: Let_def\<close>)
  qed
qed

lemma process_cells_checks:
  "\<forall>r. cells (sheet s) (r, 2) = cells wb (r, 2) \<Longrightarrow>
   checks (snd (process_cells key e n i rs s)) =
     (let k = length (visited e wb (checks s) rs)
      in if k < length rs then checks s + Suc k else checks s + length rs)"
proof (induction rs arbitrary: i s)
  case Nil
  then show ?case by simp
next
  case (Cons r rs)
  show ?case
  proof (cases "is_running e (checks s)")
    case False
    then show ?thesis by (simp add: Let_def)
  next
    case True
    show ?thesis
    proof (cases "cells wb (r, 2)")
      case (PStr url)
      let ?s1 = "shorten_cell key e r url
                   (emit (Progress (percent i n) (CurrentUrl url)) (s\<lparr>checks := Suc (checks s)\<rparr>))"
      have col: "\<forall>r. cells (sheet ?s1) (r, 2) = cells wb (r, 2)"
        using Cons.prems by (simp add: shorten_cell_column2 emit_def)
      show ?thesis
        using True PStr Cons.prems Cons.IH [OF col, of "Suc i"]
        by (simp add: Let_def shorten_cell_checks emit_def)
    qed (use True Cons.prems in \<open>simp_all add: Let_def\<close>)
  qed
qed

lemma process_cells_summary:
  assumes "process_cells key e n 0 rs \<lparr>sheet = wb, trace = [], checks = 0\<rparr> = (x, s)"
  defines "vs \<equiv> visited e wb 0 rs"
  shows "trace s = loop_trace key e n 0 wb vs"
    and "cells (sheet s) = written e (cells wb) vs"
    and "max_row (sheet s) = max_row wb"
    and "x = (if length vs < length rs \<and> is_running e (length vs)
              then Some (emit_type_error (cells wb (rs ! length vs, 2))) else None)"
    and "checks s = (if length vs < length rs then Suc (length vs) else length rs)"
proof -
  let ?s0 = "\<lparr>sheet = wb, trace = [], checks = 0\<rparr>"
  have col: "\<forall>r. cells (sheet ?s0) (r, 2) = cells wb (r, 2)" by simp
  have s: "s = snd (process_cells key e n 0 rs ?s0)" and x: "x = fst (process_cells key e n 0 rs ?s0)"
    using assms(1) by simp_all
  show "trace s = loop_trace key e n 0 wb vs"
    unfolding s vs_def using process_cells_trace [OF col, of key e n 0 rs] by simp
  show "cells (sheet s) = written e (cells wb) vs"
    unfolding s vs_def using process_cells_cells [OF col, of key e n 0 rs] by simp
  show "max_row (sheet s) = max_row wb"
    unfolding s by (simp add: process_cells_max_row)
  show "x = (if length vs < length rs \<and> is_running e (length vs)
             then Some (emit_type_error (cells wb (rs ! length vs, 2))) else None)"
    unfolding x vs_def using process_cells_exn [OF col, of key e n 0 rs] by (simp add: Let_def)
  show "checks s = (if length vs < length rs then Suc (length vs) else length rs)"
    unfolding s vs_def using process_cells_checks [OF col, of key e n 0 rs] by (simp add: Let_def)
qed

lemma run_events:
  assumes "load_workbook e = Inr wb" and "urls_to_shorten wb \<noteq> []"
  defines "n \<equiv> length (urls_to_shorten wb)"
  defines "vs \<equiv> visited e wb 0 (urls_to_shorten wb)"
  shows "events (run filepath key e) =
           loop_trace key e n 0 wb vs @
           run_tail filepath e (emit_type_error (cells wb (urls_to_shorten wb ! length vs, 2))) n (length vs)"
proof -
  obtain x s where pc:
    "process_cells key e n 0 (urls_to_shorten wb) \<lparr>sheet = wb, trace = [], checks = 0\<rparr> = (x, s)"
    by (cases "process_cells key e n 0 (urls_to_shorten wb) \<lparr>sheet = wb, trace = [], checks = 0\<rparr>")
  note sm = process_cells_summary [OF pc, folded vs_def n_def]
  have le: "length vs \<le> n"
    unfolding vs_def n_def by (rule visited_length)
  show ?thesis
  proof (cases "length vs < n \<and> is_running e (length vs)")
    case True
    then show ?thesis
      using assms(1,2) pc sm(1,4)
      by (simp add: run_def run_body_def n_def [symmetric] Let_def run_tail_def)
  next
    case False
    then have x: "x = None" using sm(4) by simp
    have run_iff: "is_running e (checks s) \<longleftrightarrow> is_running e n"
    proof (cases "length vs < n")
      case True
      with False have "\<not> is_running e (length vs)" by simp
      then have "\<not> is_running e (Suc (length vs))" "\<not> is_running e n"
        using True is_running_mono [of e "Suc (length vs)" "length vs"]
          is_running_mono [of e n "length vs"] by auto
      then show ?thesis using True sm(5) by simp
    next
      case False
      then show ?thesis using le sm(5) by simp
    qed
    show ?thesis
      using assms(1,2) pc sm(1) x False run_iff
      by (simp add: run_def run_body_def n_def [symmetric] Let_def run_tail_def emit_def
               split: option.splits)
  qed
qed

lemma run_memory:
  assumes "load_workbook e = Inr wb"
  shows "\<exists>w. memory (run filepath key e) = Some w \<and> max_row w = max_row wb \<and>
             cells w = written e (cells wb) (visited e wb 0 (urls_to_shorten wb))"
proof (cases "urls_to_shorten wb = []")
  case True
  then show ?thesis using assms
    by (simp add: run_def run_body_def written_def fun_eq_iff)
next
  case False
  let ?n = "length (urls_to_shorten wb)"
  obtain x s where pc:
    "process_cells key e ?n 0 (urls_to_shorten wb) \<lparr>sheet = wb, trace = [], checks = 0\<rparr> = (x, s)"
    by (cases "process_cells key e ?n 0 (urls_to_shorten wb) \<lparr>sheet = wb, trace = [], checks = 0\<rparr>")
  note sm = process_cells_summary [OF pc]
  have "memory (run filepath key e) = Some (sheet s)"
    using assms False pc
    by (simp add: run_def run_body_def Let_def emit_def split: option.splits)
  then show ?thesis using sm(2,3) by simp
qed

lemma run_saved:
  assumes "load_workbook e = Inr wb"
  defines "n \<equiv> length (urls_to_shorten wb)"
  defines "vs \<equiv> visited e wb 0 (urls_to_shorten wb)"
  shows "saved (run filepath key e) =
           (if 0 < n \<and> length vs = n \<and> is_running e n \<and> save_error e = None
            then memory (run filepath key e) else None)"
proof (cases "urls_to_shorten wb = []")
  case True
  then show ?thesis using assms(1)
    by (simp add: run_def run_body_def n_def)
next
  case False
  obtain x s where pc:
    "process_cells key e n 0 (urls_to_shorten wb) \<lparr>sheet = wb, trace = [], checks = 0\<rparr> = (x, s)"
    by (cases "process_cells key e n 0 (urls_to_shorten wb) \<lparr>sheet = wb, trace = [], checks = 0\<rparr>")
  note sm = process_cells_summary [OF pc, folded vs_def n_def]
  have le: "length vs \<le> n"
    unfolding vs_def n_def by (rule visited_length)
  have pos: "0 < n" using False by (simp add: n_def)
  show ?thesis
  proof (cases "length vs < n")
    case True
    then have "is_running e (Suc (length vs)) \<Longrightarrow> is_running e (length vs)"
      using is_running_mono [of e "Suc (length vs)" "length vs"] by simp
    then show ?thesis
      using assms(1) False pc sm(4,5) True
      by (auto simp: run_def run_body_def n_def [symmetric] Let_def emit_def split: option.splits)
  next
    case False
    then have "length vs = n" using le by simp
    then show ?thesis
      using assms(1) \<open>urls_to_shorten wb \<noteq> []\<close> pc sm(4,5) pos
      by (auto simp: run_def run_body_def n_def [symmetric] Let_def emit_def split: option.splits)
  qed
qed

lemma map_filter_append:
  "List.map_filter f (xs @ ys) = List.map_filter f xs @ List.map_filter f ys"
  by (simp add: List.map_filter_def)

lemma loop_trace_logs:
  "List.map_filter log_of (loop_trace key e n i wb vs) = map (\<lambda>r. row_log e r (url_text wb r)) vs"
  by (induction vs arbitrary: i) (simp_all add: List.map_filter_simps)

lemma loop_trace_requests:
  "List.map_filter request_of (loop_trace key e n i wb vs) = map (\<lambda>r. api_url (url_text wb r) key) vs"
  by (induction vs arbitrary: i) (simp_all add: List.map_filter_simps)

lemma loop_trace_progress:
  "List.map_filter progress_of (loop_trace key e n i wb vs) =
     map (\<lambda>(j, r). (percent j n, CurrentUrl (url_text wb r))) (zip [i ..< i + length vs] vs)"
proof (induction vs arbitrary: i)
  case Nil
  then show ?case by (simp add: List.map_filter_simps)
next
  case (Cons r vs)
  have "[i ..< i + length (r # vs)] = i # [Suc i ..< Suc i + length vs]"
    by (simp add: upt_rec)
  then show ?case using Cons.IH [of "Suc i"] by (simp add: List.map_filter_simps)
qed

lemma loop_trace_finished: "List.map_filter finished_of (loop_trace key e n i wb vs) = []"
  by (induction vs arbitrary: i) (simp_all add: List.map_filter_simps)

lemma loop_trace_saves: "List.map_filter save_of (loop_trace key e n i wb vs) = []"
  by (induction vs arbitrary: i) (simp_all add: List.map_filter_simps)

lemma run_tail_logs: "List.map_filter log_of (run_tail filepath e z n k) = []"
  by (simp add: run_tail_def List.map_filter_simps)

lemma run_tail_requests: "List.map_filter request_of (run_tail filepath e z n k) = []"
  by (simp add: run_tail_def List.map_filter_simps)

lemma run_tail_progress:
  "List.map_filter progress_of (run_tail filepath e z n k) =
     (if k < n \<and> is_running e k then [] else [(100, TextDone)])"
  by (simp add: run_tail_def List.map_filter_simps)

lemma run_tail_finished:
  "List.map_filter finished_of (run_tail filepath e z n k) =
     [if k < n \<and> is_running e k then run_handler z
      else if is_running e n
      then (case save_error e of None \<Rightarrow> Completed filepath | Some x \<Rightarrow> run_handler x)
      else Interrupted]"
  by (simp add: run_tail_def List.map_filter_simps)

lemma run_tail_saves:
  "List.map_filter save_of (run_tail filepath e z n k) =
     (if \<not> (k < n \<and> is_running e k) \<and> is_running e n then [filepath] else [])"
  by (simp add: run_tail_def List.map_filter_simps)

lemma run_no_urls:
  "load_workbook e = Inr wb \<Longrightarrow> urls_to_shorten wb = [] \<Longrightarrow>
   run filepath key e = \<lparr>events = [Finished NoUrlsFound], memory = Some wb, saved = None\<rparr>"
  by (simp add: run_def run_body_def)

lemma run_log_lines:
  assumes "load_workbook e = Inr wb"
  shows "log_lines (run filepath key e) =
           map (\<lambda>r. row_log e r (url_text wb r)) (visited e wb 0 (urls_to_shorten wb))"
proof (cases "urls_to_shorten wb = []")
  case True
  then show ?thesis
    using run_no_urls [OF assms True] by (simp add: log_lines_def List.map_filter_simps)
next
  case False
  show ?thesis
    unfolding log_lines_def run_events [OF assms False]
    by (simp add: map_filter_append loop_trace_logs run_tail_logs)
qed

lemma run_requests:
  assumes "load_workbook e = Inr wb"
  shows "requests (run filepath key e) =
           map (\<lambda>r. api_url (url_text wb r) key) (visited e wb 0 (urls_to_shorten wb))"
proof (cases "urls_to_shorten wb = []")
  case True
  then show ?thesis
    using run_no_urls [OF assms True] by (simp add: requests_def List.map_filter_simps)
next
  case False
  show ?thesis
    unfolding requests_def run_events [OF assms False]
    by (simp add: map_filter_append loop_trace_requests run_tail_requests)
qed

lemma run_save_calls:
  assumes "load_workbook e = Inr wb" and "urls_to_shorten wb \<noteq> []"
  shows "save_calls (run filepath key e) =
           (let n = length (urls_to_shorten wb); k = length (visited e wb 0 (urls_to_shorten wb))
            in if \<not> (k < n \<and> is_running e k) \<and> is_running e n then [filepath] else [])"
  unfolding save_calls_def run_events [OF assms]
  by (simp add: map_filter_append loop_trace_saves run_tail_saves Let_def)

lemma run_finished_messages:
  assumes "load_workbook e = Inr wb" and "urls_to_shorten wb \<noteq> []"
  shows "finished_messages (run filepath key e) =
           (let n = length (urls_to_shorten wb); k = length (visited e wb 0 (urls_to_shorten wb))
            in [if k < n \<and> is_running e k
                then run_handler (emit_type_error (cells wb (urls_to_shorten wb ! k, 2)))
                else if is_running e n
                then (case save_error e of None \<Rightarrow> Completed filepath | Some x \<Rightarrow> run_handler x)
                else Interrupted])"
  unfolding finished_messages_def run_events [OF assms]
  by (simp add: map_filter_append loop_trace_finished run_tail_finished Let_def)

lemma run_progress_events:
  assumes "load_workbook e = Inr wb" and "urls_to_shorten wb \<noteq> []"
  shows "progress_events (run filepath key e) =
           (let n = length (urls_to_shorten wb); vs = visited e wb 0 (urls_to_shorten wb)
            in map (\<lambda>(j, r). (percent j n, CurrentUrl (url_text wb r))) (zip [0 ..< length vs] vs) @
               (if length vs < n \<and> is_running e (length vs) then [] else [(100, TextDone)]))"
  unfolding progress_events_def run_events [OF assms]
  using loop_trace_progress [of key e "length (urls_to_shorten wb)" 0 wb]
  by (simp add: map_filter_append run_tail_progress Let_def)

lemma run_requests_length:
  "load_workbook e = Inr wb \<Longrightarrow>
   length (requests (run filepath key e)) = length (visited e wb 0 (urls_to_shorten wb))"
  by (simp add: run_requests)

lemma run_log_lines_length:
  "load_workbook e = Inr wb \<Longrightarrow>
   length (log_lines (run filepath key e)) = length (requests (run filepath key e))"
  by (simp add: run_requests run_log_lines)

lemma requested_row:
  assumes load: "load_workbook e = Inr wb"
    and k: "k < length (requests (run filepath key e))"
    and r: "r = urls_to_shorten wb ! k"
  shows "\<exists>url w. cells wb (r, 2) = PStr url \<and>
           log_lines (run filepath key e) ! k = row_log e r url \<and>
           memory (run filepath key e) = Some w \<and>
           cells w (r, 3) = (case row_write e r of None \<Rightarrow> cells wb (r, 3) | Some v \<Rightarrow> v)"
proof -
  let ?vs = "visited e wb 0 (urls_to_shorten wb)"
  have kv: "k < length ?vs" using k run_requests_length [OF load] by simp
  have "?vs ! k = take (length ?vs) (urls_to_shorten wb) ! k"
    using visited_prefix [of e wb 0 "urls_to_shorten wb"] by simp
  then have vk: "?vs ! k = r" using kv r by simp
  then have mem: "r \<in> set ?vs" using kv nth_mem by blast
  then obtain url where url: "cells wb (r, 2) = PStr url"
    using visited_str by blast
  have "log_lines (run filepath key e) ! k = row_log e r (url_text wb r)"
    using run_log_lines [OF load, of filepath key] kv vk by simp
  then have lg: "log_lines (run filepath key e) ! k = row_log e r url"
    using url by (simp add: url_text_def)
  obtain w where w: "memory (run filepath key e) = Some w" "cells w = written e (cells wb) ?vs"
    using run_memory [OF load, of filepath key] by blast
  have "cells w (r, 3) = (case row_write e r of None \<Rightarrow> cells wb (r, 3) | Some v \<Rightarrow> v)"
    using w(2) mem by (simp add: written_def)
  then show ?thesis using url lg w(1) by blast
qed

lemma example_load: "load_workbook example_env = Inr example_workbook"
  by (simp add: example_env_def)

lemma example_urls: "urls_to_shorten example_workbook = [2, 3]"
  by (simp add: urls_to_shorten_def iter_rows_def example_workbook_def upt_rec)

lemma example_visited:
  "visited example_env example_workbook 0 (urls_to_shorten example_workbook) = [2, 3]"
  unfolding example_urls by (simp add: is_running_def example_env_def example_workbook_def)

lemma example_requests: "length (requests (run filepath key example_env)) = 2"
  by (simp add: run_requests_length [OF example_load] example_visited)

lemma bare_load: "load_workbook bare_env = Inr bare_workbook"
  by (simp add: bare_env_def)

lemma bare_urls: "urls_to_shorten bare_workbook = [2]"
  by (simp add: urls_to_shorten_def iter_rows_def bare_workbook_def upt_rec)

lemma bare_visited: "visited bare_env bare_workbook 0 (urls_to_shorten bare_workbook) = [2]"
  unfolding bare_urls by (simp add: is_running_def bare_env_def bare_workbook_def)

lemma bare_requests: "length (requests (run filepath key bare_env)) = 1"
  by (simp add: run_requests_length [OF bare_load] bare_visited)

lemma is_running_cong: "stop_after e' = stop_after e \<Longrightarrow> is_running e' = is_running e"
  by (simp add: is_running_def fun_eq_iff)

lemma visited_cong:
  "stop_after e' = stop_after e \<Longrightarrow> \<forall>r \<in> set rs. cells wb' (r, 2) = cells wb (r, 2) \<Longrightarrow>
   visited e' wb' c rs = visited e wb c rs"
proof (induction rs arbitrary: c)
  case Nil
  then show ?case by simp
next
  case (Cons r rs)
  have ir: "is_running e' c = is_running e c"
    using is_running_cong [OF Cons.prems(1)] by simp
  have ih: "visited e' wb' (Suc c) rs = visited e wb (Suc c) rs"
    using Cons.IH Cons.prems by simp
  have "cells wb' (r, 2) = cells wb (r, 2)" using Cons.prems(2) by simp
  then show ?case using ir ih by (simp split: pyval.splits)
qed

lemma row_log_cong: "http_get e' r = http_get e r \<Longrightarrow> row_log e' r url = row_log e r url"
  by (simp add: row_log_def)

lemma loop_trace_cong:
  "\<forall>r \<in> set vs. cells wb' (r, 2) = cells wb (r, 2) \<and> http_get e' r = http_get e r \<Longrightarrow>
   loop_trace key e' n i wb' vs = loop_trace key e n i wb vs"
proof (induction vs arbitrary: i)
  case Nil
  then show ?case by simp
next
  case (Cons r vs)
  have c: "cells wb' (r, 2) = cells wb (r, 2)" and h: "http_get e' r = http_get e r"
    using Cons.prems by simp_all
  have u: "url_text wb' r = url_text wb r" using c by (simp add: url_text_def)
  have l: "row_log e' r (url_text wb r) = row_log e r (url_text wb r)"
    using h by (rule row_log_cong)
  have ih: "loop_trace key e' n (Suc i) wb' vs = loop_trace key e n (Suc i) wb vs"
    using Cons.IH Cons.prems by simp
  show ?case by (simp add: u l ih)
qed

lemma run_tail_cong:
  "stop_after e' = stop_after e \<Longrightarrow> save_error e' = save_error e \<Longrightarrow> (k < n \<Longrightarrow> z' = z) \<Longrightarrow>
   run_tail filepath e' z' n k = run_tail filepath e z n k"
  using is_running_cong [of e' e] by (simp add: run_tail_def)

lemma visited_subset: "set (visited e wb c rs) \<subseteq> set rs"
  by (metis visited_prefix set_take_subset)

lemma run_events_cong:
  assumes "load_workbook e = Inr wb" and "load_workbook e' = Inr wb'"
    and "urls_to_shorten wb' = urls_to_shorten wb"
    and "\<forall>r \<in> set (urls_to_shorten wb). cells wb' (r, 2) = cells wb (r, 2) \<and> http_get e' r = http_get e r"
    and "stop_after e' = stop_after e" and "save_error e' = save_error e"
  shows "events (run filepath key e') = events (run filepath key e)"
proof (cases "urls_to_shorten wb = []")
  case True
  then show ?thesis
    using run_no_urls [OF assms(1) True] run_no_urls [OF assms(2)] assms(3) by simp
next
  case False
  then have ne': "urls_to_shorten wb' \<noteq> []" using assms(3) by simp
  have v: "visited e' wb' 0 (urls_to_shorten wb') = visited e wb 0 (urls_to_shorten wb)"
    unfolding assms(3) using assms(4,5) by (intro visited_cong) auto
  have "\<forall>r \<in> set (visited e wb 0 (urls_to_shorten wb)).
          cells wb' (r, 2) = cells wb (r, 2) \<and> http_get e' r = http_get e r"
    using assms(4) visited_subset by blast
  then have lt: "loop_trace key e' n 0 wb' (visited e wb 0 (urls_to_shorten wb)) =
      loop_trace key e n 0 wb (visited e wb 0 (urls_to_shorten wb))" for n
    by (rule loop_trace_cong)
  let ?k = "length (visited e wb 0 (urls_to_shorten wb))"
  have z: "emit_type_error (cells wb' (urls_to_shorten wb ! ?k, 2)) =
           emit_type_error (cells wb (urls_to_shorten wb ! ?k, 2))"
    if "?k < length (urls_to_shorten wb)"
    using assms(4) that by simp
  have rt: "run_tail filepath e' (emit_type_error (cells wb' (urls_to_shorten wb ! ?k, 2)))
              (length (urls_to_shorten wb)) ?k =
            run_tail filepath e (emit_type_error (cells wb (urls_to_shorten wb ! ?k, 2)))
              (length (urls_to_shorten wb)) ?k"
    using assms(5,6) z by (rule run_tail_cong)
  show ?thesis
    unfolding run_events [OF assms(1) False] run_events [OF assms(2) ne'] v
    by (simp add: assms(3) lt rt)
qed

lemma visited_stops:
  "length (visited e wb c rs) < length rs \<Longrightarrow>
   \<not> is_running e (c + length (visited e wb c rs)) \<or>
   (\<forall>u. cells wb (rs ! length (visited e wb c rs), 2) \<noteq> PStr u)"
proof (induction rs arbitrary: c)
  case Nil
  then show ?case by simp
next
  case (Cons r rs)
  show ?case
  proof (cases "is_running e c")
    case False
    then show ?thesis by simp
  next
    case True
    show ?thesis
    proof (cases "cells wb (r, 2)")
      case (PStr url)
      then have "length (visited e wb (Suc c) rs) < length rs"
        using True Cons.prems by simp
      from Cons.IH [OF this] show ?thesis using True PStr by simp
    qed (use True in simp_all)
  qed
qed

lemma visited_bounded:
  "stop_after e = Some k \<Longrightarrow> c + length (visited e wb c rs) \<le> max c k"
proof (induction rs arbitrary: c)
  case Nil
  then show ?case by simp
next
  case (Cons r rs)
  show ?case
  proof (cases "is_running e c")
    case False
    then show ?thesis by simp
  next
    case True
    then have ck: "c < k" using Cons.prems by (simp add: is_running_def)
    show ?thesis
    proof (cases "cells wb (r, 2)")
      case (PStr url)
      have "Suc c + length (visited e wb (Suc c) rs) \<le> max (Suc c) k"
        by (rule Cons.IH [OF Cons.prems])
      then show ?thesis using True PStr ck by simp
    qed (use True in simp_all)
  qed
qed

lemma urls_to_shorten_set:
  "r \<in> set (urls_to_shorten wb) \<longleftrightarrow> 2 \<le> r \<and> r \<le> max_row wb \<and> truthy (cells wb (r, 2))"
  by (auto simp: urls_to_shorten_def iter_rows_def)

lemma urls_to_shorten_distinct: "distinct (urls_to_shorten wb)"
  by (simp add: urls_to_shorten_def iter_rows_def)

lemma urls_to_shorten_blank:
  "\<not> truthy (cells wb (r, 2)) \<Longrightarrow>
   urls_to_shorten (wb\<lparr>cells := (cells wb)((r, 2) := PNone)\<rparr>) = urls_to_shorten wb"
  unfolding urls_to_shorten_def iter_rows_def
  by (rule filter_cong) auto

lemma offline_load: "load_workbook offline_env = Inr example_workbook"
  by (simp add: offline_env_def example_env_def)

lemma offline_visited:
  "visited offline_env example_workbook 0 (urls_to_shorten example_workbook) = [2, 3]"
proof -
  have "visited offline_env example_workbook 0 (urls_to_shorten example_workbook) =
        visited example_env example_workbook 0 (urls_to_shorten example_workbook)"
    by (rule visited_cong) (simp_all add: offline_env_def)
  then show ?thesis by (simp add: example_visited)
qed

lemma stopped_load: "load_workbook stopped_env = Inr example_workbook"
  by (simp add: stopped_env_def example_env_def)

lemma mixed_load: "load_workbook mixed_env = Inr mixed_workbook"
  by (simp add: mixed_env_def)

lemma mixed_urls: "urls_to_shorten mixed_workbook = [3]"
  by (simp add: urls_to_shorten_def iter_rows_def mixed_workbook_def upt_rec)

subsection \<open>Rounding to double precision is monotone\<close>

lemma round_half_even_lower: "\<lfloor>x\<rfloor> \<le> round_half_even x"
  by (simp add: round_half_even_def Let_def)

lemma round_half_even_upper: "round_half_even x \<le> \<lfloor>x\<rfloor> + 1"
  by (simp add: round_half_even_def Let_def)

lemma round_half_even_of_int: "round_half_even (of_int n) = n"
  by (simp add: round_half_even_def Let_def)

lemma round_half_even_mono:
  assumes "x \<le> y"
  shows "round_half_even x \<le> round_half_even y"
proof (cases "\<lfloor>x\<rfloor> = \<lfloor>y\<rfloor>")
  case True
  then have "x - of_int \<lfloor>x\<rfloor> \<le> y - of_int \<lfloor>y\<rfloor>" using assms by simp
  then show ?thesis using True
    by (auto simp: round_half_even_def Let_def)
next
  case False
  then have "\<lfloor>x\<rfloor> < \<lfloor>y\<rfloor>" using floor_mono [OF assms] by simp
  then have "round_half_even x \<le> \<lfloor>y\<rfloor>" using round_half_even_upper [of x] by simp
  then show ?thesis using round_half_even_lower [of y] by simp
qed

lemma binade_bounds:
  assumes "0 < x"
  shows "2 powi binade x \<le> x" and "x < 2 powi (binade x + 1)"
proof -
  obtain p q where pq: "quotient_of x = (p, q)" by (cases "quotient_of x")
  have q: "0 < q" using quotient_of_denom_pos [OF pq] .
  have x: "x = of_int p / of_int q" using quotient_of_div [OF pq] .
  have p: "0 < p" using assms q x by (simp add: zero_less_divide_iff)
  define bp bq where "bp = bitlen p" and "bq = bitlen q"
  have bp1: "1 \<le> bp" and bq1: "1 \<le> bq"
    using p q by (simp_all add: bp_def bq_def bitlen_alt_def)
  have plo: "(2::rat) powi (bp - 1) \<le> of_int p" and phi: "of_int p < (2::rat) powi bp"
  proof -
    have "2 ^ nat (bp - 1) \<le> p" "p < 2 ^ nat bp"
      using bitlen_bounds [OF p] by (simp_all add: bp_def)
    then have "(of_int (2 ^ nat (bp - 1)) :: rat) \<le> of_int p" "(of_int p :: rat) < of_int (2 ^ nat bp)"
      by (simp_all only: of_int_le_iff of_int_less_iff)
    then show "(2::rat) powi (bp - 1) \<le> of_int p" "of_int p < (2::rat) powi bp"
      using bp1 by (simp_all add: power_int_def)
  qed
  have qlo: "(2::rat) powi (bq - 1) \<le> of_int q" and qhi: "of_int q < (2::rat) powi bq"
  proof -
    have "2 ^ nat (bq - 1) \<le> q" "q < 2 ^ nat bq"
      using bitlen_bounds [OF q] by (simp_all add: bq_def)
    then have "(of_int (2 ^ nat (bq - 1)) :: rat) \<le> of_int q" "(of_int q :: rat) < of_int (2 ^ nat bq)"
      by (simp_all only: of_int_le_iff of_int_less_iff)
    then show "(2::rat) powi (bq - 1) \<le> of_int q" "of_int q < (2::rat) powi bq"
      using bq1 by (simp_all add: power_int_def)
  qed
  have qpos: "(0::rat) < of_int q" using q by simp
  have lo: "(2::rat) powi (bp - bq - 1) < x"
  proof -
    have "(2::rat) powi (bp - bq - 1) * of_int q < 2 powi (bp - bq - 1) * 2 powi bq"
      using qhi by (intro mult_strict_left_mono) simp_all
    also have "\<dots> = 2 powi (bp - 1)"
      by (simp add: power_int_add [symmetric])
    also have "\<dots> \<le> of_int p" by (rule plo)
    finally show ?thesis using qpos by (simp add: x pos_less_divide_eq)
  qed
  have hi: "x < (2::rat) powi (bp - bq + 1)"
  proof -
    have "of_int p < (2::rat) powi bp" by (rule phi)
    also have "\<dots> = 2 powi (bp - bq + 1) * 2 powi (bq - 1)"
      by (simp add: power_int_add [symmetric])
    also have "\<dots> \<le> 2 powi (bp - bq + 1) * of_int q"
      using qlo by (intro mult_left_mono) simp_all
    finally show ?thesis using qpos by (simp add: x pos_divide_less_eq)
  qed
  have b: "binade x = (if 2 powi (bp - bq) \<le> x then bp - bq else bp - bq - 1)"
    by (simp add: binade_def pq bp_def bq_def Let_def)
  show "2 powi binade x \<le> x"
    using lo by (simp add: b)
  show "x < 2 powi (binade x + 1)"
    using hi by (auto simp: b not_le)
qed

lemma binade_mono:
  assumes "0 < x" and "x \<le> y"
  shows "binade x \<le> binade y"
proof -
  have "(2::rat) powi binade x \<le> x" using binade_bounds(1) [OF assms(1)] .
  also have "x \<le> y" by fact
  also have "y < 2 powi (binade y + 1)" using binade_bounds(2) [of y] assms by simp
  finally have "(2::rat) powi binade x < 2 powi (binade y + 1)" .
  then have "binade x < binade y + 1"
    by (metis power_int_increasing not_less one_le_numeral)
  then show ?thesis by simp
qed

lemma to_double_pos:
  "0 < x \<Longrightarrow>
   to_double x = of_int (round_half_even (x * 2 powi (52 - binade x))) * 2 powi (binade x - 52)"
  by (simp add: to_double_def Let_def)

lemma significand_bounds:
  assumes "0 < x"
  shows "2 ^ 52 \<le> round_half_even (x * 2 powi (52 - binade x))"
    and "round_half_even (x * 2 powi (52 - binade x)) \<le> 2 ^ 53"
proof -
  let ?s = "(2::rat) powi (52 - binade x)"
  have s: "0 < ?s" by simp
  have "(2::rat) powi 52 = 2 powi binade x * ?s"
    by (simp add: power_int_add [symmetric])
  also have "\<dots> \<le> x * ?s"
    using binade_bounds(1) [OF assms] s by (intro mult_right_mono) simp_all
  finally have lo: "of_int (2 ^ 52) \<le> x * ?s" by simp
  have "x * ?s \<le> 2 powi (binade x + 1) * ?s"
    using binade_bounds(2) [OF assms] s by (intro mult_right_mono) simp_all
  also have "\<dots> = 2 powi 53"
    by (simp add: power_int_add [symmetric])
  finally have hi: "x * ?s \<le> of_int (2 ^ 53)" by simp
  show "2 ^ 52 \<le> round_half_even (x * ?s)"
    using round_half_even_mono [OF lo] by (simp only: round_half_even_of_int)
  show "round_half_even (x * ?s) \<le> 2 ^ 53"
    using round_half_even_mono [OF hi] by (simp only: round_half_even_of_int)
qed

lemma to_double_bounds:
  assumes "0 < x"
  shows "2 powi binade x \<le> to_double x" and "to_double x \<le> 2 powi (binade x + 1)"
proof -
  let ?m = "round_half_even (x * 2 powi (52 - binade x))"
  let ?t = "(2::rat) powi (binade x - 52)"
  have t: "0 < ?t" by simp
  have "(2::rat) powi binade x = 2 powi 52 * ?t"
    using power_int_add [of "2::rat" 52 "binade x - 52"] by simp
  also have "\<dots> = of_int (2 ^ 52) * ?t" by simp
  also have "\<dots> \<le> of_int ?m * ?t"
    using significand_bounds(1) [OF assms] t
    by (intro mult_right_mono) (simp_all only: of_int_le_iff less_imp_le)
  finally show "2 powi binade x \<le> to_double x"
    by (simp only: to_double_pos [OF assms])
  have "of_int ?m * ?t \<le> of_int (2 ^ 53) * ?t"
    using significand_bounds(2) [OF assms] t
    by (intro mult_right_mono) (simp_all only: of_int_le_iff less_imp_le)
  also have "\<dots> = 2 powi 53 * ?t" by simp
  also have "\<dots> = 2 powi (binade x + 1)"
    using power_int_add [of "2::rat" 53 "binade x - 52"] by (simp add: add.commute)
  finally show "to_double x \<le> 2 powi (binade x + 1)"
    by (simp only: to_double_pos [OF assms])
qed

lemma to_double_nonneg: "0 \<le> x \<Longrightarrow> 0 \<le> to_double x"
proof (cases "x = 0")
  case True
  then show ?thesis by (simp add: to_double_def)
next
  case False
  assume "0 \<le> x"
  with False have pos: "0 < x" by simp
  have "(0::rat) \<le> 2 powi binade x" by simp
  then show ?thesis using to_double_bounds(1) [OF pos] by (rule order_trans)
qed

lemma to_double_mono:
  assumes "0 \<le> x" and "x \<le> y"
  shows "to_double x \<le> to_double y"
proof (cases "x = 0")
  case True
  then show ?thesis using assms to_double_nonneg [of y] by (simp add: to_double_def)
next
  case False
  then have x: "0 < x" and y: "0 < y" using assms by simp_all
  show ?thesis
  proof (cases "binade x = binade y")
    case True
    let ?s = "(2::rat) powi (52 - binade y)"
    let ?t = "(2::rat) powi (binade y - 52)"
    have "x * ?s \<le> y * ?s"
      using assms(2) by (intro mult_right_mono) simp_all
    then have "round_half_even (x * ?s) \<le> round_half_even (y * ?s)"
      by (rule round_half_even_mono)
    then have "(of_int (round_half_even (x * ?s)) :: rat) * ?t \<le> of_int (round_half_even (y * ?s)) * ?t"
      by (intro mult_right_mono) simp_all
    then show ?thesis
      by (simp only: to_double_pos [OF x] to_double_pos [OF y] True)
  next
    case False
    then have "binade x + 1 \<le> binade y"
      using binade_mono [OF x assms(2)] by simp
    then have "(2::rat) powi (binade x + 1) \<le> 2 powi binade y"
      by (intro power_int_increasing) simp_all
    then show ?thesis
      using to_double_bounds(2) [OF x] to_double_bounds(1) [OF y] by simp
  qed
qed

lemma binade_1: "binade 1 = 0"
  by (simp add: binade_def bitlen_alt_def)

lemma to_double_1: "to_double 1 = 1"
  by (simp add: to_double_def binade_1 round_half_even_def Let_def)

lemma binade_100: "binade 100 = 6"
proof -
  have "quotient_of 100 = (100, 1)"
    using quotient_of_int [of 100] by simp
  moreover have "bitlen 100 = 7" by code_simp
  moreover have "bitlen 1 = 1" by code_simp
  ultimately show ?thesis by (simp add: binade_def)
qed

lemma to_double_100: "to_double 100 = 100"
proof -
  have "(100::rat) * 2 powi 46 = of_int (100 * 2 ^ 46)" by simp
  then have "round_half_even (100 * 2 powi 46) = 100 * 2 ^ 46"
    by (simp only: round_half_even_of_int)
  then show ?thesis
    by (simp add: to_double_def binade_100 power_int_minus)
qed

lemma percent_mono:
  assumes "i \<le> j"
  shows "percent i n \<le> percent j n"
proof -
  have q: "(of_nat i :: rat) / of_nat n \<le> of_nat j / of_nat n"
    using assms by (simp add: divide_right_mono)
  have q0: "(0::rat) \<le> of_nat i / of_nat n" by simp
  have d: "to_double (of_nat i / of_nat n) * 100 \<le> to_double (of_nat j / of_nat n) * 100"
    using to_double_mono [OF q0 q] by simp
  have d0: "0 \<le> to_double (of_nat i / of_nat n) * 100"
    using to_double_nonneg [OF q0] by simp
  have "to_double (to_double (of_nat i / of_nat n) * 100) \<le>
        to_double (to_double (of_nat j / of_nat n) * 100)"
    by (rule to_double_mono [OF d0 d])
  moreover have "0 \<le> to_double (to_double (of_nat i / of_nat n) * 100)"
    by (rule to_double_nonneg [OF d0])
  ultimately show ?thesis
    by (simp add: percent_def py_int_def floor_mono)
qed

lemma percent_le_100:
  assumes "i \<le> n"
  shows "percent i n \<le> 100"
proof -
  have q0: "(0::rat) \<le> of_nat i / of_nat n" by simp
  have q1: "(of_nat i :: rat) / of_nat n \<le> 1"
    using assms by (cases "n = 0") (simp_all add: divide_le_eq_1)
  have "to_double (of_nat i / of_nat n) \<le> 1"
    using to_double_mono [OF q0 q1] by (simp add: to_double_1)
  then have d: "to_double (of_nat i / of_nat n) * 100 \<le> 100" by simp
  have d0: "0 \<le> to_double (of_nat i / of_nat n) * 100"
    using to_double_nonneg [OF q0] by simp
  have t: "to_double (to_double (of_nat i / of_nat n) * 100) \<le> 100"
    using to_double_mono [OF d0 d] by (simp add: to_double_100)
  have "0 \<le> to_double (to_double (of_nat i / of_nat n) * 100)"
    by (rule to_double_nonneg [OF d0])
  then have "percent i n = \<lfloor>to_double (to_double (of_nat i / of_nat n) * 100)\<rfloor>"
    by (simp add: percent_def py_int_def)
  also have "\<dots> \<le> \<lfloor>100::rat\<rfloor>" using t by (rule floor_mono)
  finally show ?thesis by simp
qed

lemma percent_0: "percent 0 n = 0"
  by (simp add: percent_def to_double_def py_int_def)

lemma visited_all:
  "stop_after e = None \<Longrightarrow> \<forall>r \<in> set rs. \<exists>u. cells wb (r, 2) = PStr u \<Longrightarrow>
   visited e wb c rs = rs"
  by (induction rs arbitrary: c) (auto simp: is_running_def)

lemma visited_all_running:
  "is_running e (c + length rs) \<Longrightarrow> \<forall>r \<in> set rs. \<exists>u. cells wb (r, 2) = PStr u \<Longrightarrow>
   visited e wb c rs = rs"
proof (induction rs arbitrary: c)
  case Nil
  then show ?case by simp
next
  case (Cons r rs)
  have c: "is_running e c"
    using Cons.prems(1) by (rule is_running_mono) simp
  have "is_running e (Suc c + length rs)" using Cons.prems(1) by simp
  then have ih: "visited e wb (Suc c) rs = rs"
    using Cons.prems(2) by (intro Cons.IH) simp_all
  obtain u where "cells wb (r, 2) = PStr u" using Cons.prems(2) by auto
  then show ?case using c ih by simp
qed

lemma visited_until:
  "k < length rs \<Longrightarrow> is_running e (c + k) \<Longrightarrow>
   \<forall>j<k. \<exists>u. cells wb (rs ! j, 2) = PStr u \<Longrightarrow> \<forall>u. cells wb (rs ! k, 2) \<noteq> PStr u \<Longrightarrow>
   length (visited e wb c rs) = k"
proof (induction rs arbitrary: c k)
  case Nil
  then show ?case by simp
next
  case (Cons r rs)
  show ?case
  proof (cases k)
    case 0
    then have "\<forall>u. cells wb (r, 2) \<noteq> PStr u" using Cons.prems(4) by simp
    then show ?thesis using 0 by (simp split: pyval.splits)
  next
    case (Suc k')
    have c: "is_running e c"
      using Cons.prems(2) by (rule is_running_mono) simp
    obtain u where u: "cells wb (r, 2) = PStr u"
      using Cons.prems(3) Suc by fastforce
    have 1: "k' < length rs" using Cons.prems(1) Suc by simp
    have 2: "is_running e (Suc c + k')" using Cons.prems(2) Suc by simp
    have 3: "\<forall>j<k'. \<exists>u. cells wb (rs ! j, 2) = PStr u"
    proof (intro allI impI)
      fix j assume "j < k'"
      then have "Suc j < k" using Suc by simp
      then have "\<exists>u. cells wb ((r # rs) ! Suc j, 2) = PStr u" using Cons.prems(3) by blast
      then show "\<exists>u. cells wb (rs ! j, 2) = PStr u" by simp
    qed
    have 4: "\<forall>u. cells wb (rs ! k', 2) \<noteq> PStr u" using Cons.prems(4) Suc by simp
    have "length (visited e wb (Suc c) rs) = k'"
      by (rule Cons.IH [OF 1 2 3 4])
    then show ?thesis using c u Suc by simp
  qed
qed

lemma map_fst_zip_pair:
  "length xs = length ys \<Longrightarrow> map fst (map (\<lambda>(j, r). (f j, g r)) (zip xs ys)) = map f xs"
  by (induction xs ys rule: list_induct2) simp_all

lemma sorted_percent: "sorted (map (\<lambda>i. percent i n) [0 ..< m])"
proof -
  have "sorted_wrt (\<lambda>i j. percent i n \<le> percent j n) [0 ..< m]"
    by (rule sorted_wrt_mono_rel [of _ "(\<le>)"]) (simp_all add: percent_mono)
  then show ?thesis by (simp add: sorted_map)
qed

lemma garbled_load: "load_workbook garbled_env = Inr example_workbook"
  by (simp add: garbled_env_def example_env_def)

lemma garbled_visited:
  "visited garbled_env example_workbook 0 (urls_to_shorten example_workbook) = [2, 3]"
proof -
  have "visited garbled_env example_workbook 0 (urls_to_shorten example_workbook) =
        visited example_env example_workbook 0 (urls_to_shorten example_workbook)"
    by (rule visited_cong) (simp_all add: garbled_env_def)
  then show ?thesis by (simp add: example_visited)
qed

lemma locked_load: "load_workbook locked_env = Inr example_workbook"
  by (simp add: locked_env_def example_env_def)

lemma locked_visited:
  "visited locked_env example_workbook 0 (urls_to_shorten example_workbook) = [2, 3]"
proof -
  have "visited locked_env example_workbook 0 (urls_to_shorten example_workbook) =
        visited example_env example_workbook 0 (urls_to_shorten example_workbook)"
    by (rule visited_cong) (simp_all add: locked_env_def)
  then show ?thesis by (simp add: example_visited)
qed

lemma row_write_cong: "http_get e' r = http_get e r \<Longrightarrow> row_write e' r = row_write e r"
  by (simp add: row_write_def)

lemma written_cong:
  "\<forall>r \<in> set vs. http_get e' r = http_get e r \<Longrightarrow> written e' f vs = written e f vs"
  by (auto simp: written_def fun_eq_iff row_write_def)

lemma run_memory_save_error:
  assumes "load_workbook e = Inr wb"
  shows "memory (run filepath key (e\<lparr>save_error := z\<rparr>)) = memory (run filepath key e)"
proof -
  let ?e' = "e\<lparr>save_error := z\<rparr>"
  let ?us = "urls_to_shorten wb"
  have l: "load_workbook ?e' = Inr wb" using assms by simp
  have v: "visited ?e' wb 0 ?us = visited e wb 0 ?us"
    by (rule visited_cong) simp_all
  have wr: "written ?e' (cells wb) (visited e wb 0 ?us) = written e (cells wb) (visited e wb 0 ?us)"
    by (rule written_cong) simp
  obtain w where w: "memory (run filepath key e) = Some w" "max_row w = max_row wb"
    "cells w = written e (cells wb) (visited e wb 0 ?us)"
    using run_memory [OF assms, of filepath key] by blast
  obtain w' where w': "memory (run filepath key ?e') = Some w'" "max_row w' = max_row wb"
    "cells w' = written ?e' (cells wb) (visited ?e' wb 0 ?us)"
    using run_memory [OF l, of filepath key] by blast
  have "w' = w"
    using w(2,3) w'(2,3) v wr by (intro workbook.equality) simp_all
  then show ?thesis using w(1) w'(1) by simp
qed

lemma run_handler_unexpected: "\<forall>m. x \<noteq> FileNotFoundError m \<Longrightarrow> run_handler x = Unexpected (exn_text x)"
  by (cases x) simp_all

lemma row_handler_unexpected: "\<forall>m. x \<noteq> RequestException m \<Longrightarrow> row_handler url x = LogError url (exn_text x)"
  by (cases x) simp_all

lemma next_row_requested:
  assumes "load_workbook e = Inr wb"
    and "k < length (requests (run filepath key e))"
    and "Suc k < length (urls_to_shorten wb)"
    and "is_running e (Suc k)"
    and "cells wb (urls_to_shorten wb ! Suc k, 2) = PStr u"
  shows "Suc k < length (requests (run filepath key e))"
proof (rule ccontr)
  let ?us = "urls_to_shorten wb"
  let ?vs = "visited e wb 0 ?us"
  assume "\<not> Suc k < length (requests (run filepath key e))"
  then have len: "length ?vs = Suc k"
    using assms(2) run_requests_length [OF assms(1), of filepath key] by simp
  then have "length ?vs < length ?us" using assms(3) by simp
  from visited_stops [OF this] show False using len assms(4,5) by simp
qed

lemma row_outcome_independent:
  assumes "load_workbook e = Inr wb"
  shows "requests (run filepath key (e\<lparr>http_get := (http_get e)(r := x)\<rparr>)) =
           requests (run filepath key e) \<and>
         finished_messages (run filepath key (e\<lparr>http_get := (http_get e)(r := x)\<rparr>)) =
           finished_messages (run filepath key e) \<and>
         save_calls (run filepath key (e\<lparr>http_get := (http_get e)(r := x)\<rparr>)) =
           save_calls (run filepath key e)"
proof (cases "urls_to_shorten wb = []")
  case True
  let ?e' = "e\<lparr>http_get := (http_get e)(r := x)\<rparr>"
  have l: "load_workbook ?e' = Inr wb" using assms by simp
  show ?thesis
    unfolding run_no_urls [OF l True] run_no_urls [OF assms True] by simp
next
  case ne: False
  let ?us = "urls_to_shorten wb"
  let ?e' = "e\<lparr>http_get := (http_get e)(r := x)\<rparr>"
  have l: "load_workbook ?e' = Inr wb" using assms by simp
  have v: "visited ?e' wb 0 ?us = visited e wb 0 ?us"
    by (rule visited_cong) simp_all
  have ir: "is_running ?e' = is_running e"
    by (rule is_running_cong) simp
  have se: "save_error ?e' = save_error e" by simp
  have a: "requests (run filepath key ?e') = requests (run filepath key e)"
    unfolding run_requests [OF l] run_requests [OF assms] v ..
  have b: "finished_messages (run filepath key ?e') = finished_messages (run filepath key e)"
    unfolding run_finished_messages [OF l ne] run_finished_messages [OF assms ne] v ir se ..
  have c: "save_calls (run filepath key ?e') = save_calls (run filepath key e)"
    unfolding run_save_calls [OF l ne] run_save_calls [OF assms ne] v ir ..
  show ?thesis using a b c by (intro conjI)
qed

lemma example_short_url: "bind_value (PStr ''http://x/1'') = Inr (PStr ''http://x/1'')"
  by (rule bind_value_plain) (simp_all add: illegal_character_def)

lemma control_short_url:
  "bind_value (PStr (''http://x/'' @ [CHR 0x01])) =
     Inl (OtherException (''http://x/'' @ [CHR 0x01] @ '' cannot be used in worksheets.''))"
  by (simp add: check_string_def illegal_character_def)

lemma control_load: "load_workbook control_env = Inr bare_workbook"
  by (simp add: control_env_def bare_env_def)

lemma control_visited: "visited control_env bare_workbook 0 (urls_to_shorten bare_workbook) = [2]"
proof -
  have "visited control_env bare_workbook 0 (urls_to_shorten bare_workbook) =
        visited bare_env bare_workbook 0 (urls_to_shorten bare_workbook)"
    by (rule visited_cong) (simp_all add: control_env_def)
  then show ?thesis by (simp add: bare_visited)
qed

lemma control_requests: "length (requests (run filepath key control_env)) = 1"
  by (simp add: run_requests_length [OF control_load] control_visited)

lemma control_answer:
  "http_get control_env 2 =
     Inr (JObject [(''status'', PInt 200), (''shorturl'', PStr (''http://x/'' @ [CHR 0x01]))])"
  by (simp add: control_env_def)

lemma numeric_load: "load_workbook numeric_env = Inr numeric_workbook"
  by (simp add: numeric_env_def)

lemma numeric_urls: "urls_to_shorten numeric_workbook = [2, 3]"
  by (simp add: urls_to_shorten_def iter_rows_def numeric_workbook_def upt_rec)

lemma numeric_visited:
  "visited numeric_env numeric_workbook 0 (urls_to_shorten numeric_workbook) = [2]"
  unfolding numeric_urls
  by (simp add: is_running_def numeric_env_def example_env_def numeric_workbook_def)

section \<open>The claims\<close>

text \<open>
  C7. When the URL column (column 2, from row 2 to the last row) holds no value that counts
  as true, the run consists of the single terminal message that no URL was found: no
  progress event, no request, no log line, no call of save, and nothing is written to the
  file.
\<close>

theorem no_urls_found:
  assumes "load_workbook e = Inr wb"
    and "\<forall>r \<in> {2 .. max_row wb}. \<not> truthy (cells wb (r, 2))"
  shows "events (run filepath api_key e) = [Finished NoUrlsFound] \<and>
         progress_events (run filepath api_key e) = [] \<and>
         log_lines (run filepath api_key e) = [] \<and>
         requests (run filepath api_key e) = [] \<and>
         finished_messages (run filepath api_key e) = [NoUrlsFound] \<and>
         save_calls (run filepath api_key e) = [] \<and>
         saved (run filepath api_key e) = None"
proof -
  have "urls_to_shorten wb = []"
    using assms(2) by (auto simp: urls_to_shorten_def iter_rows_def filter_empty_conv)
  then have "run filepath api_key e =
      \<lparr>events = [Finished NoUrlsFound], memory = Some wb, saved = None\<rparr>"
    using assms(1) by (rule run_no_urls [rotated])
  then show ?thesis
    by (simp add: progress_events_def log_lines_def requests_def finished_messages_def
          save_calls_def List.map_filter_simps)
qed

theorem no_urls_found_witness:
  "load_workbook falsy_env = Inr falsy_workbook \<and>
   map (\<lambda>r. cells falsy_workbook (r, 2)) (iter_rows falsy_workbook) =
     [PInt 0, PBool False, PStr []] \<and>
   events (run ''urls.xlsx'' ''key'' falsy_env) = [Finished NoUrlsFound] \<and>
   saved (run ''urls.xlsx'' ''key'' falsy_env) = None"
proof -
  have h1: "load_workbook falsy_env = Inr falsy_workbook"
    by (simp add: falsy_env_def)
  have h2: "\<forall>r \<in> {2 .. max_row falsy_workbook}. \<not> truthy (cells falsy_workbook (r, 2))"
    by (auto simp: falsy_workbook_def)
  show ?thesis
    using no_urls_found [OF h1 h2, of "''urls.xlsx''" "''key''"] h1
    by (simp add: iter_rows_def falsy_workbook_def upt_rec)
qed

text \<open>
  C8. On the example input the run logs exactly two lines, a success for the first URL and
  a failure for the second, saves the workbook once, and the saved workbook holds the short
  URL in C2 and nothing in C3.
\<close>

theorem example_run:
  "log_lines (run filepath api_key example_env) =
     [LogSuccess ''http://a.com'' (PStr ''http://x/1''),
      LogFailure ''http://b.com'' (Some (PStr ''bad url''))] \<and>
   map_option (\<lambda>w. [cells w (2, 3), cells w (3, 3)]) (saved (run filepath api_key example_env)) =
     Some [PStr ''http://x/1'', PNone] \<and>
   save_calls (run filepath api_key example_env) = [filepath] \<and>
   finished_messages (run filepath api_key example_env) = [Completed filepath]"
proof -
  have load: "load_workbook example_env = Inr example_workbook"
    by (simp add: example_env_def)
  have urls: "urls_to_shorten example_workbook = [2, 3]"
    by (simp add: urls_to_shorten_def iter_rows_def example_workbook_def upt_rec)
  have vis: "visited example_env example_workbook 0 (urls_to_shorten example_workbook) = [2, 3]"
    unfolding urls by (simp add: is_running_def example_env_def example_workbook_def)
  have ne: "urls_to_shorten example_workbook \<noteq> []" using urls by simp
  have run: "is_running example_env j" for j
    by (simp add: is_running_def example_env_def)
  have se: "save_error example_env = None"
    by (simp add: example_env_def)
  have logs: "log_lines (run filepath api_key example_env) =
     [LogSuccess ''http://a.com'' (PStr ''http://x/1''),
      LogFailure ''http://b.com'' (Some (PStr ''bad url''))]"
    unfolding run_log_lines [OF load] vis using example_short_url
    by (simp add: row_log_def url_text_def example_env_def example_workbook_def py_get_def
             del: bind_value.simps)
  obtain w where w: "memory (run filepath api_key example_env) = Some w"
    "cells w = written example_env (cells example_workbook) [2, 3]"
    using run_memory [OF load, of filepath api_key] vis by auto
  have sv: "saved (run filepath api_key example_env) = Some w"
    using run_saved [OF load, of filepath api_key] vis urls run w(1) se
    by simp
  have cellsw: "[cells w (2, 3), cells w (3, 3)] = [PStr ''http://x/1'', PNone]"
    unfolding w(2) using example_short_url
    by (simp add: written_def row_write_def example_env_def example_workbook_def py_get_def
             del: bind_value.simps)
  have saves: "save_calls (run filepath api_key example_env) = [filepath]"
    using run_save_calls [OF load ne, of filepath api_key] vis urls run by simp
  have fin: "finished_messages (run filepath api_key example_env) = [Completed filepath]"
    using run_finished_messages [OF load ne, of filepath api_key] vis urls run se
    by simp
  show ?thesis using logs sv cellsw saves fin by simp
qed

text \<open>
  C1, as stated, fails: the answer for the only URL row has status 200, but its short URL
  holds a control character, which the sheet refuses. The assignment raises inside the
  inner \<^verbatim>\<open>try\<close>: the worker logs the error line, not the success line, and the
  output cell keeps its old value, in memory and in the saved file.
\<close>

theorem refused_short_url_counterexample:
  "load_workbook control_env = Inr bare_workbook \<and>
   urls_to_shorten bare_workbook = [2] \<and>
   cells bare_workbook (2, 3) = PStr ''old'' \<and>
   http_get control_env 2 =
     Inr (JObject [(''status'', PInt 200), (''shorturl'', PStr (''http://x/'' @ [CHR 0x01]))]) \<and>
   requests (run ''urls.xlsx'' ''key'' control_env) = [api_url ''http://a.com'' ''key''] \<and>
   log_lines (run ''urls.xlsx'' ''key'' control_env) =
     [LogError ''http://a.com'' (''http://x/'' @ [CHR 0x01] @ '' cannot be used in worksheets.'')] \<and>
   memory (run ''urls.xlsx'' ''key'' control_env) = Some bare_workbook \<and>
   saved (run ''urls.xlsx'' ''key'' control_env) = Some bare_workbook"
proof -
  have ut: "url_text bare_workbook 2 = ''http://a.com''"
    by (simp add: url_text_def bare_workbook_def)
  have run: "is_running control_env j" for j
    by (simp add: is_running_def control_env_def bare_env_def)
  have se: "save_error control_env = None"
    by (simp add: control_env_def bare_env_def)
  have old: "cells bare_workbook (2, 3) = PStr ''old''"
    by (simp add: bare_workbook_def)
  have rq: "requests (run ''urls.xlsx'' ''key'' control_env) = [api_url ''http://a.com'' ''key'']"
    unfolding run_requests [OF control_load] control_visited by (simp add: ut)
  have rl: "row_log control_env 2 ''http://a.com'' =
      LogError ''http://a.com'' (''http://x/'' @ [CHR 0x01] @ '' cannot be used in worksheets.'')"
    unfolding row_log_def control_answer using control_short_url
    by (simp add: py_get_def del: bind_value.simps)
  have lg: "log_lines (run ''urls.xlsx'' ''key'' control_env) =
     [LogError ''http://a.com'' (''http://x/'' @ [CHR 0x01] @ '' cannot be used in worksheets.'')]"
    unfolding run_log_lines [OF control_load] control_visited using rl by (simp add: ut)
  have rw: "row_write control_env 2 = None"
    unfolding row_write_def control_answer using control_short_url
    by (simp add: py_get_def del: bind_value.simps)
  obtain w where w: "memory (run ''urls.xlsx'' ''key'' control_env) = Some w"
    "max_row w = max_row bare_workbook"
    "cells w = written control_env (cells bare_workbook) [2]"
    using run_memory [OF control_load, of "''urls.xlsx''" "''key''"] control_visited by auto
  have "cells w = cells bare_workbook"
    unfolding w(3) using rw by (auto simp: written_def fun_eq_iff)
  then have "w = bare_workbook"
    using w(2) by (intro workbook.equality) simp_all
  then have mem: "memory (run ''urls.xlsx'' ''key'' control_env) = Some bare_workbook"
    using w(1) by simp
  have sv: "saved (run ''urls.xlsx'' ''key'' control_env) = Some bare_workbook"
    using run_saved [OF control_load, of "''urls.xlsx''" "''key''"] control_visited bare_urls
      run se mem
    by simp
  show ?thesis
    using control_load bare_urls old control_answer rq lg mem sv by (intro conjI)
qed

text \<open>
  C1, amended. Let row \<open>r\<close> be the \<open>k\<close>-th URL row and let its request have been made and
  answered with a JSON object. The run emits one log line for each request, in order. If
  the status of the answer is 200, the worker assigns the value of \<^verbatim>\<open>shorturl\<close> to the
  output cell of the row. When the sheet takes the value (\<^verbatim>\<open>None\<close>, a \<^verbatim>\<open>bool\<close>, an
  \<^verbatim>\<open>int\<close>, or a string with no control character among its first 32767 characters),
  the output cell holds it at the end of the run, a string cut down to its first 32767
  characters, and the log line of the row is the success line. When the sheet refuses the
  value, the output cell holds what it held when the workbook was loaded and the log line
  of the row is the error line of the refusal. For any other status the output cell holds
  what it held when the workbook was loaded and the log line of the row is the failure
  line.
\<close>

theorem status_and_sheet_decide_output_cell:
  assumes "load_workbook e = Inr wb"
    and "k < length (requests (run filepath api_key e))"
    and "r = urls_to_shorten wb ! k"
    and "http_get e r = Inr (JObject response_json)"
  shows "\<exists>url w. cells wb (r, 2) = PStr url \<and> memory (run filepath api_key e) = Some w \<and>
           length (log_lines (run filepath api_key e)) = length (requests (run filepath api_key e)) \<and>
           (if py_get response_json ''status'' = PInt 200
            then (case py_get response_json ''shorturl'' of
                    PStr s \<Rightarrow>
                      if list_ex illegal_character (take 32767 s)
                      then cells w (r, 3) = cells wb (r, 3) \<and>
                           log_lines (run filepath api_key e) ! k =
                             LogError url (take 32767 s @ '' cannot be used in worksheets.'')
                      else cells w (r, 3) = PStr (take 32767 s) \<and>
                           log_lines (run filepath api_key e) ! k = LogSuccess url (PStr s)
                  | v \<Rightarrow>
                      cells w (r, 3) = v \<and>
                      log_lines (run filepath api_key e) ! k = LogSuccess url v)
            else cells w (r, 3) = cells wb (r, 3) \<and>
                 log_lines (run filepath api_key e) ! k =
                   LogFailure url (map_of response_json ''error''))"
proof -
  obtain url w where
    "cells wb (r, 2) = PStr url"
    "log_lines (run filepath api_key e) ! k = row_log e r url"
    "memory (run filepath api_key e) = Some w"
    "cells w (r, 3) = (case row_write e r of None \<Rightarrow> cells wb (r, 3) | Some v \<Rightarrow> v)"
    using requested_row [OF assms(1-3)] by blast
  then show ?thesis
    using assms(4) run_log_lines_length [OF assms(1), of filepath api_key]
    by (auto simp: row_log_def row_write_def check_string_def Let_def split: pyval.splits)
qed

theorem status_and_sheet_decide_output_cell_witness:
  "map_option (\<lambda>w. cells w (2, 3)) (memory (run ''urls.xlsx'' ''key'' example_env)) =
     Some (PStr ''http://x/1'') \<and>
   log_lines (run ''urls.xlsx'' ''key'' example_env) ! 0 =
     LogSuccess ''http://a.com'' (PStr ''http://x/1'') \<and>
   map_option (\<lambda>w. cells w (3, 3)) (memory (run ''urls.xlsx'' ''key'' example_env)) = Some PNone \<and>
   log_lines (run ''urls.xlsx'' ''key'' example_env) ! 1 =
     LogFailure ''http://b.com'' (Some (PStr ''bad url'')) \<and>
   map_option (\<lambda>w. cells w (2, 3)) (memory (run ''urls.xlsx'' ''key'' control_env)) =
     Some (PStr ''old'') \<and>
   log_lines (run ''urls.xlsx'' ''key'' control_env) ! 0 =
     LogError ''http://a.com'' (''http://x/'' @ [CHR 0x01] @ '' cannot be used in worksheets.'')"
proof -
  have k0: "0 < length (requests (run ''urls.xlsx'' ''key'' example_env))"
    by (simp add: example_requests)
  have r0: "2 = urls_to_shorten example_workbook ! 0"
    by (simp add: example_urls)
  have g0: "http_get example_env 2 =
      Inr (JObject [(''status'', PInt 200), (''shorturl'', PStr ''http://x/1'')])"
    by (simp add: example_env_def)
  have t0: "take 32767 ''http://x/1'' = ''http://x/1''"
    by (rule take_short) simp
  have a: "map_option (\<lambda>w. cells w (2, 3)) (memory (run ''urls.xlsx'' ''key'' example_env)) =
             Some (PStr ''http://x/1'') \<and>
           log_lines (run ''urls.xlsx'' ''key'' example_env) ! 0 =
             LogSuccess ''http://a.com'' (PStr ''http://x/1'')"
    using status_and_sheet_decide_output_cell [OF example_load k0 r0 g0]
    by (auto simp: py_get_def example_workbook_def t0 illegal_character_def)
  have k1: "1 < length (requests (run ''urls.xlsx'' ''key'' example_env))"
    by (simp add: example_requests)
  have r1: "3 = urls_to_shorten example_workbook ! 1"
    by (simp add: example_urls)
  have g1: "http_get example_env 3 = Inr (JObject [(''status'', PInt 400), (''error'', PStr ''bad url'')])"
    by (simp add: example_env_def)
  have b: "map_option (\<lambda>w. cells w (3, 3)) (memory (run ''urls.xlsx'' ''key'' example_env)) = Some PNone \<and>
           log_lines (run ''urls.xlsx'' ''key'' example_env) ! 1 =
             LogFailure ''http://b.com'' (Some (PStr ''bad url''))"
    using status_and_sheet_decide_output_cell [OF example_load k1 r1 g1]
    by (auto simp: py_get_def example_workbook_def)
  have k2: "0 < length (requests (run ''urls.xlsx'' ''key'' control_env))"
    by (simp add: control_requests)
  have r2: "2 = urls_to_shorten bare_workbook ! 0"
    by (simp add: bare_urls)
  have c: "map_option (\<lambda>w. cells w (2, 3)) (memory (run ''urls.xlsx'' ''key'' control_env)) =
             Some (PStr ''old'') \<and>
           log_lines (run ''urls.xlsx'' ''key'' control_env) ! 0 =
             LogError ''http://a.com'' (''http://x/'' @ [CHR 0x01] @ '' cannot be used in worksheets.'')"
    using status_and_sheet_decide_output_cell [OF control_load k2 r2 control_answer]
    by (auto simp: py_get_def bare_workbook_def illegal_character_def)
  show ?thesis using a b c by (intro conjI) simp_all
qed

text \<open>
  C9. If the answer for a requested row has status 200 and no field \<^verbatim>\<open>shorturl\<close>,
  the output cell of the row is set to \<^verbatim>\<open>None\<close> and the log line of the row is the
  success line, with \<^verbatim>\<open>None\<close> as the short URL.
\<close>

theorem success_without_shorturl:
  assumes "load_workbook e = Inr wb"
    and "k < length (requests (run filepath api_key e))"
    and "r = urls_to_shorten wb ! k"
    and "http_get e r = Inr (JObject response_json)"
    and "py_get response_json ''status'' = PInt 200"
    and "map_of response_json ''shorturl'' = None"
  shows "\<exists>url w. cells wb (r, 2) = PStr url \<and> memory (run filepath api_key e) = Some w \<and>
           cells w (r, 3) = PNone \<and>
           log_lines (run filepath api_key e) ! k = LogSuccess url PNone"
proof -
  obtain url w where
    "cells wb (r, 2) = PStr url"
    "log_lines (run filepath api_key e) ! k = row_log e r url"
    "memory (run filepath api_key e) = Some w"
    "cells w (r, 3) = (case row_write e r of None \<Rightarrow> cells wb (r, 3) | Some v \<Rightarrow> v)"
    using requested_row [OF assms(1-3)] by blast
  then show ?thesis
    using assms(4-6) by (auto simp: row_log_def row_write_def py_get_def)
qed

theorem success_without_shorturl_witness:
  "cells bare_workbook (2, 3) = PStr ''old'' \<and>
   map_option (\<lambda>w. cells w (2, 3)) (memory (run ''urls.xlsx'' ''key'' bare_env)) = Some PNone \<and>
   log_lines (run ''urls.xlsx'' ''key'' bare_env) ! 0 = LogSuccess ''http://a.com'' PNone"
proof -
  have k: "0 < length (requests (run ''urls.xlsx'' ''key'' bare_env))"
    by (simp add: bare_requests)
  have r: "2 = urls_to_shorten bare_workbook ! 0"
    by (simp add: bare_urls)
  have g: "http_get bare_env 2 = Inr (JObject [(''status'', PInt 200)])"
    by (simp add: bare_env_def)
  have s: "py_get [(''status'', PInt 200)] ''status'' = PInt 200"
    by (simp add: py_get_def)
  have n: "map_of [(''status'', PInt 200)] ''shorturl'' = None"
    by simp
  show ?thesis
    using success_without_shorturl [OF bare_load k r g s n]
    by (auto simp: bare_workbook_def)
qed

text \<open>
  C2. At the end of every run (completed, stopped after any number of rows, or aborted) the
  workbook in memory, and the saved one if there is one, differs from the loaded workbook
  only in output cells (column 3) of rows that were requested and answered with status 200,
  and such a cell holds the value of \<^verbatim>\<open>shorturl\<close> of that answer, as the sheet
  stores it.
\<close>

theorem output_written_only_on_success:
  assumes "load_workbook e = Inr wb"
    and "memory (run filepath api_key e) = Some w \<or> saved (run filepath api_key e) = Some w"
    and "cells w (r, c) \<noteq> cells wb (r, c)"
  shows "c = 3 \<and>
         (\<exists>k response_json.
            k < length (requests (run filepath api_key e)) \<and> r = urls_to_shorten wb ! k \<and>
            http_get e r = Inr (JObject response_json) \<and>
            py_get response_json ''status'' = PInt 200 \<and>
            bind_value (py_get response_json ''shorturl'') = Inr (cells w (r, c)))"
proof -
  let ?vs = "visited e wb 0 (urls_to_shorten wb)"
  obtain w' where w': "memory (run filepath api_key e) = Some w'" "cells w' = written e (cells wb) ?vs"
    using run_memory [OF assms(1), of filepath api_key] by blast
  have "saved (run filepath api_key e) = Some w \<Longrightarrow> memory (run filepath api_key e) = Some w"
    using run_saved [OF assms(1), of filepath api_key] by (simp split: if_splits)
  then have "w = w'" using assms(2) w'(1) by auto
  then have cw: "cells w (r, c) = written e (cells wb) ?vs (r, c)" using w'(2) by simp
  from assms(3) cw have c: "c = 3" and mem: "r \<in> set ?vs" and rw: "row_write e r = Some (cells w (r, c))"
    by (auto simp: written_def split: if_splits option.splits)
  from mem obtain k where k: "k < length ?vs" "?vs ! k = r"
    by (auto simp: in_set_conv_nth)
  have "?vs ! k = take (length ?vs) (urls_to_shorten wb) ! k"
    using visited_prefix [of e wb 0 "urls_to_shorten wb"] by simp
  then have rk: "r = urls_to_shorten wb ! k" using k by simp
  have kr: "k < length (requests (run filepath api_key e))"
    using k(1) run_requests_length [OF assms(1)] by simp
  from rw obtain response_json where
    "http_get e r = Inr (JObject response_json)" "py_get response_json ''status'' = PInt 200"
    "bind_value (py_get response_json ''shorturl'') = Inr (cells w (r, c))"
    by (auto simp: row_write_def split: sum.splits json.splits if_splits)
  then show ?thesis using c rk kr by blast
qed

theorem output_written_only_on_success_witness:
  "\<exists>w k response_json.
     saved (run ''urls.xlsx'' ''key'' example_env) = Some w \<and>
     cells w (2, 3) = PStr ''http://x/1'' \<and> cells example_workbook (2, 3) = PNone \<and>
     k < length (requests (run ''urls.xlsx'' ''key'' example_env)) \<and>
     2 = urls_to_shorten example_workbook ! k \<and>
     http_get example_env 2 = Inr (JObject response_json) \<and>
     py_get response_json ''status'' = PInt 200"
proof -
  obtain w where w: "memory (run ''urls.xlsx'' ''key'' example_env) = Some w"
    "cells w = written example_env (cells example_workbook) [2, 3]"
    using run_memory [OF example_load, of "''urls.xlsx''" "''key''"] example_visited by auto
  have sv: "saved (run ''urls.xlsx'' ''key'' example_env) = Some w"
    using run_saved [OF example_load, of "''urls.xlsx''" "''key''"] example_visited example_urls w(1)
    by (simp add: is_running_def example_env_def)
  have c: "cells w (2, 3) = PStr ''http://x/1''"
    unfolding w(2) using example_short_url
    by (simp add: written_def row_write_def example_env_def py_get_def del: bind_value.simps)
  have old: "cells example_workbook (2, 3) = PNone"
    by (simp add: example_workbook_def)
  have d: "cells w (2, 3) \<noteq> cells example_workbook (2, 3)"
    using c old by simp
  show ?thesis
    using output_written_only_on_success [OF example_load disjI2 [OF sv] d] sv c old
    by auto
qed

text \<open>
  C5. Let row \<open>r\<close> be the \<open>k\<close>-th URL row and let its request have raised a
  \<^verbatim>\<open>RequestException\<close>. The log line of the row is the request error line, its output
  cell holds what it held when the workbook was loaded, and the loop goes on: if there is a
  next URL row, the worker is not stopped before it and its cell holds a string, then that
  row is requested too. The requests made, the terminal message and the call of save are
  the same as after any other outcome of the request of row \<open>r\<close>.
\<close>

theorem network_error_is_logged_and_skipped:
  assumes "load_workbook e = Inr wb"
    and "k < length (requests (run filepath api_key e))"
    and "r = urls_to_shorten wb ! k"
    and "http_get e r = Inl (RequestException m)"
  shows "\<exists>url w. cells wb (r, 2) = PStr url \<and> memory (run filepath api_key e) = Some w \<and>
           cells w (r, 3) = cells wb (r, 3) \<and>
           log_lines (run filepath api_key e) ! k = LogRequestError url m \<and>
           length (log_lines (run filepath api_key e)) = length (requests (run filepath api_key e)) \<and>
           (Suc k < length (urls_to_shorten wb) \<and> is_running e (Suc k) \<and>
            (\<exists>u. cells wb (urls_to_shorten wb ! Suc k, 2) = PStr u) \<longrightarrow>
              Suc k < length (requests (run filepath api_key e))) \<and>
           (\<forall>x. requests (run filepath api_key (e\<lparr>http_get := (http_get e)(r := x)\<rparr>)) =
                  requests (run filepath api_key e) \<and>
                finished_messages (run filepath api_key (e\<lparr>http_get := (http_get e)(r := x)\<rparr>)) =
                  finished_messages (run filepath api_key e) \<and>
                save_calls (run filepath api_key (e\<lparr>http_get := (http_get e)(r := x)\<rparr>)) =
                  save_calls (run filepath api_key e))"
proof -
  let ?us = "urls_to_shorten wb"
  let ?vs = "visited e wb 0 ?us"
  obtain url w where row:
    "cells wb (r, 2) = PStr url"
    "log_lines (run filepath api_key e) ! k = row_log e r url"
    "memory (run filepath api_key e) = Some w"
    "cells w (r, 3) = (case row_write e r of None \<Rightarrow> cells wb (r, 3) | Some v \<Rightarrow> v)"
    using requested_row [OF assms(1-3)] by blast
  have 1: "cells w (r, 3) = cells wb (r, 3)"
    using row(4) assms(4) by (simp add: row_write_def)
  have 2: "log_lines (run filepath api_key e) ! k = LogRequestError url m"
    using row(2) assms(4) by (simp add: row_log_def)
  have kv: "k < length ?vs" using assms(2) run_requests_length [OF assms(1)] by simp
  have 3: "Suc k < length ?us \<and> is_running e (Suc k) \<and>
            (\<exists>u. cells wb (?us ! Suc k, 2) = PStr u) \<longrightarrow>
              Suc k < length (requests (run filepath api_key e))"
  proof (intro impI, elim conjE exE, rule ccontr)
    fix u
    assume a: "Suc k < length ?us" "is_running e (Suc k)" "cells wb (?us ! Suc k, 2) = PStr u"
    assume "\<not> Suc k < length (requests (run filepath api_key e))"
    then have len: "length ?vs = Suc k"
      using kv run_requests_length [OF assms(1), of filepath api_key] by simp
    then have "length ?vs < length ?us" using a(1) by simp
    from visited_stops [OF this] show False using len a(2,3) by simp
  qed
  have ne: "?us \<noteq> []" using kv visited_length [of e wb 0 ?us] by auto
  have 4: "\<forall>x. requests (run filepath api_key (e\<lparr>http_get := (http_get e)(r := x)\<rparr>)) =
                  requests (run filepath api_key e) \<and>
                finished_messages (run filepath api_key (e\<lparr>http_get := (http_get e)(r := x)\<rparr>)) =
                  finished_messages (run filepath api_key e) \<and>
                save_calls (run filepath api_key (e\<lparr>http_get := (http_get e)(r := x)\<rparr>)) =
                  save_calls (run filepath api_key e)"
  proof
    fix x
    let ?e' = "e\<lparr>http_get := (http_get e)(r := x)\<rparr>"
    have l: "load_workbook ?e' = Inr wb" using assms(1) by simp
    have v: "visited ?e' wb 0 ?us = ?vs"
      by (rule visited_cong) simp_all
    have ir: "is_running ?e' = is_running e"
      by (rule is_running_cong) simp
    have se: "save_error ?e' = save_error e" by simp
    have a: "requests (run filepath api_key ?e') = requests (run filepath api_key e)"
      unfolding run_requests [OF l] run_requests [OF assms(1)] v ..
    have b: "finished_messages (run filepath api_key ?e') = finished_messages (run filepath api_key e)"
      unfolding run_finished_messages [OF l ne] run_finished_messages [OF assms(1) ne] v ir se ..
    have c: "save_calls (run filepath api_key ?e') = save_calls (run filepath api_key e)"
      unfolding run_save_calls [OF l ne] run_save_calls [OF assms(1) ne] v ir ..
    show "requests (run filepath api_key ?e') = requests (run filepath api_key e) \<and>
          finished_messages (run filepath api_key ?e') = finished_messages (run filepath api_key e) \<and>
          save_calls (run filepath api_key ?e') = save_calls (run filepath api_key e)"
      using a b c by (intro conjI)
  qed
  note 5 = run_log_lines_length [OF assms(1), of filepath api_key]
  show ?thesis
    apply (rule exI [of _ url], rule exI [of _ w])
    apply (intro conjI)
          apply (rule row(1))
         apply (rule row(3))
        apply (rule 1)
       apply (rule 2)
      apply (rule 5)
     apply (rule 3)
    apply (rule 4)
    done
qed

theorem network_error_is_logged_and_skipped_witness:
  "log_lines (run ''urls.xlsx'' ''key'' offline_env) ! 0 =
     LogRequestError ''http://a.com'' ''timeout'' \<and>
   map_option (\<lambda>w. cells w (2, 3)) (memory (run ''urls.xlsx'' ''key'' offline_env)) = Some PNone \<and>
   length (requests (run ''urls.xlsx'' ''key'' offline_env)) = 2"
proof -
  have n: "length (requests (run ''urls.xlsx'' ''key'' offline_env)) = 2"
    by (simp add: run_requests_length [OF offline_load] offline_visited)
  have k: "0 < length (requests (run ''urls.xlsx'' ''key'' offline_env))"
    using n by simp
  have r: "2 = urls_to_shorten example_workbook ! 0"
    by (simp add: example_urls)
  have g: "http_get offline_env 2 = Inl (RequestException ''timeout'')"
    by (simp add: offline_env_def)
  obtain url w where
    "cells example_workbook (2, 2) = PStr url"
    "memory (run ''urls.xlsx'' ''key'' offline_env) = Some w"
    "cells w (2, 3) = cells example_workbook (2, 3)"
    "log_lines (run ''urls.xlsx'' ''key'' offline_env) ! 0 = LogRequestError url ''timeout''"
    using network_error_is_logged_and_skipped [OF offline_load k r g] by blast
  then show ?thesis
    using n by (simp add: example_workbook_def)
qed

text \<open>
  C3. Let the workbook have more than \<open>k\<close> URL rows and let \<^verbatim>\<open>stop()\<close> take effect
  after \<open>k\<close> reads of the flag, that is after the \<open>k\<close>-th row and before the next one. Then
  \<^verbatim>\<open>workbook.save\<close> is not called and nothing is written to the file; at most \<open>k\<close>
  rows are requested, and if the first \<open>k\<close> URL cells hold strings, exactly \<open>k\<close> rows
  are requested and the terminal message is the one of an interrupted run.
\<close>

theorem cancelled_run_is_not_saved:
  assumes "load_workbook e = Inr wb"
    and "stop_after e = Some k"
    and "k < length (urls_to_shorten wb)"
  shows "saved (run filepath api_key e) = None \<and>
         save_calls (run filepath api_key e) = [] \<and>
         length (requests (run filepath api_key e)) \<le> k \<and>
         ((\<forall>r \<in> set (take k (urls_to_shorten wb)). \<exists>u. cells wb (r, 2) = PStr u) \<longrightarrow>
            length (requests (run filepath api_key e)) = k \<and>
            finished_messages (run filepath api_key e) = [Interrupted])"
proof -
  let ?us = "urls_to_shorten wb"
  let ?vs = "visited e wb 0 ?us"
  have ne: "?us \<noteq> []" using assms(3) by auto
  have stop: "\<not> is_running e (length ?us)" "\<not> is_running e k"
    using assms(2,3) by (simp_all add: is_running_def)
  have 1: "saved (run filepath api_key e) = None"
    using run_saved [OF assms(1), of filepath api_key] stop(1) by simp
  have 2: "save_calls (run filepath api_key e) = []"
    using run_save_calls [OF assms(1) ne, of filepath api_key] stop(1) by (simp add: Let_def)
  have le: "length ?vs \<le> k"
    using visited_bounded [OF assms(2), of 0 wb ?us] by simp
  then have 3: "length (requests (run filepath api_key e)) \<le> k"
    by (simp add: run_requests_length [OF assms(1)])
  have 4: "length (requests (run filepath api_key e)) = k \<and>
           finished_messages (run filepath api_key e) = [Interrupted]"
    if str: "\<forall>r \<in> set (take k ?us). \<exists>u. cells wb (r, 2) = PStr u"
  proof -
    have "length ?vs = k"
    proof (rule ccontr)
      assume "length ?vs \<noteq> k"
      then have lt: "length ?vs < k" using le by simp
      then have "length ?vs < length ?us" using assms(3) by simp
      from visited_stops [OF this]
      have d: "\<not> is_running e (length ?vs) \<or> (\<forall>u. cells wb (?us ! length ?vs, 2) \<noteq> PStr u)"
        by simp
      have "is_running e (length ?vs)" using lt assms(2) by (simp add: is_running_def)
      moreover have "?us ! length ?vs \<in> set (take k ?us)"
        using lt assms(3) by (metis in_set_conv_nth length_take min.absorb2 nth_take less_imp_le)
      ultimately show False using d str by blast
    qed
    then show ?thesis
      using run_finished_messages [OF assms(1) ne, of filepath api_key] stop
      by (simp add: run_requests_length [OF assms(1)] Let_def)
  qed
  show ?thesis using 1 2 3 4 by blast
qed

theorem cancelled_run_is_not_saved_witness:
  "saved (run ''urls.xlsx'' ''key'' stopped_env) = None \<and>
   save_calls (run ''urls.xlsx'' ''key'' stopped_env) = [] \<and>
   length (requests (run ''urls.xlsx'' ''key'' stopped_env)) = 1 \<and>
   finished_messages (run ''urls.xlsx'' ''key'' stopped_env) = [Interrupted]"
proof -
  have s: "stop_after stopped_env = Some 1"
    by (simp add: stopped_env_def)
  have k: "1 < length (urls_to_shorten example_workbook)"
    by (simp add: example_urls)
  have str: "\<forall>r \<in> set (take 1 (urls_to_shorten example_workbook)).
               \<exists>u. cells example_workbook (r, 2) = PStr u"
    unfolding example_urls by (simp add: example_workbook_def)
  show ?thesis
    using cancelled_run_is_not_saved [OF stopped_load s k, of "''urls.xlsx''" "''key''"] str
    by blast
qed

text \<open>
  C10. A cell of column 2 is among the URL cells exactly when it lies in the rows from 2 to
  the last one and its value counts as true; \<open>N\<close> is the number of such cells. A cell
  holding 0, \<^verbatim>\<open>False\<close> or the empty string is not among them, and the run emits the same
  events, in the same order, as on the workbook in which that cell is empty, whatever a
  request for that row would have answered: no progress event, no request and no log line
  belong to it.
\<close>

theorem falsy_cell_is_skipped:
  assumes "load_workbook e = Inr wb"
  shows "(r \<in> set (urls_to_shorten wb) \<longleftrightarrow> 2 \<le> r \<and> r \<le> max_row wb \<and> truthy (cells wb (r, 2))) \<and>
         length (urls_to_shorten wb) = card {r. 2 \<le> r \<and> r \<le> max_row wb \<and> truthy (cells wb (r, 2))} \<and>
         (cells wb (r, 2) \<in> {PInt 0, PBool False, PStr []} \<longrightarrow>
            r \<notin> set (urls_to_shorten wb) \<and>
            (\<forall>x. events (run filepath api_key
                     (e\<lparr>load_workbook := Inr (wb\<lparr>cells := (cells wb)((r, 2) := PNone)\<rparr>),
                        http_get := (http_get e)(r := x)\<rparr>)) =
                 events (run filepath api_key e)))"
proof -
  have 1: "r \<in> set (urls_to_shorten wb) \<longleftrightarrow> 2 \<le> r \<and> r \<le> max_row wb \<and> truthy (cells wb (r, 2))"
    by (rule urls_to_shorten_set)
  have "set (urls_to_shorten wb) = {r. 2 \<le> r \<and> r \<le> max_row wb \<and> truthy (cells wb (r, 2))}"
    using urls_to_shorten_set by blast
  then have 2: "length (urls_to_shorten wb) =
      card {r. 2 \<le> r \<and> r \<le> max_row wb \<and> truthy (cells wb (r, 2))}"
    using distinct_card [OF urls_to_shorten_distinct, of wb] by simp
  have 3: "r \<notin> set (urls_to_shorten wb) \<and>
        (\<forall>x. events (run filepath api_key
                 (e\<lparr>load_workbook := Inr (wb\<lparr>cells := (cells wb)((r, 2) := PNone)\<rparr>),
                    http_get := (http_get e)(r := x)\<rparr>)) =
             events (run filepath api_key e))"
    if falsy: "cells wb (r, 2) \<in> {PInt 0, PBool False, PStr []}"
  proof
    have nt: "\<not> truthy (cells wb (r, 2))" using falsy by auto
    then show out: "r \<notin> set (urls_to_shorten wb)" using 1 by simp
    show "\<forall>x. events (run filepath api_key
                 (e\<lparr>load_workbook := Inr (wb\<lparr>cells := (cells wb)((r, 2) := PNone)\<rparr>),
                    http_get := (http_get e)(r := x)\<rparr>)) =
             events (run filepath api_key e)"
    proof
      fix x
      let ?wb' = "wb\<lparr>cells := (cells wb)((r, 2) := PNone)\<rparr>"
      let ?e' = "e\<lparr>load_workbook := Inr ?wb', http_get := (http_get e)(r := x)\<rparr>"
      have l: "load_workbook ?e' = Inr ?wb'" by simp
      have u: "urls_to_shorten ?wb' = urls_to_shorten wb"
        using nt by (rule urls_to_shorten_blank)
      have a: "\<forall>r' \<in> set (urls_to_shorten wb).
                 cells ?wb' (r', 2) = cells wb (r', 2) \<and> http_get ?e' r' = http_get e r'"
        using out by auto
      show "events (run filepath api_key ?e') = events (run filepath api_key e)"
        by (rule run_events_cong [OF assms l u a]) simp_all
    qed
  qed
  show ?thesis using 1 2 3 by blast
qed

theorem falsy_cell_is_skipped_witness:
  "cells mixed_workbook (2, 2) = PInt 0 \<and> urls_to_shorten mixed_workbook = [3] \<and>
   events (run ''urls.xlsx'' ''key''
     (mixed_env\<lparr>load_workbook := Inr (mixed_workbook\<lparr>cells := (cells mixed_workbook)((2, 2) := PNone)\<rparr>),
                http_get := (http_get mixed_env)(2 := Inr (JObject []))\<rparr>)) =
   events (run ''urls.xlsx'' ''key'' mixed_env)"
proof -
  have c: "cells mixed_workbook (2, 2) = PInt 0"
    by (simp add: mixed_workbook_def)
  then have f: "cells mixed_workbook (2, 2) \<in> {PInt 0, PBool False, PStr []}"
    by simp
  show ?thesis
    using falsy_cell_is_skipped [OF mixed_load, of 2 "''urls.xlsx''" "''key''"] f c mixed_urls
    by blast
qed

text \<open>
  C4, as stated, fails: a workbook with one URL gives two progress events, not one, since
  the worker emits a closing event with 100 after the loop.
\<close>

theorem progress_count_counterexample:
  "load_workbook bare_env = Inr bare_workbook \<and> stop_after bare_env = None \<and>
   length (urls_to_shorten bare_workbook) = 1 \<and>
   progress_events (run ''urls.xlsx'' ''key'' bare_env) =
     [(0, CurrentUrl ''http://a.com''), (100, TextDone)]"
proof -
  have ne: "urls_to_shorten bare_workbook \<noteq> []" by (simp add: bare_urls)
  have ut: "url_text bare_workbook 2 = ''http://a.com''"
    by (simp add: url_text_def bare_workbook_def)
  have "progress_events (run ''urls.xlsx'' ''key'' bare_env) =
     [(0, CurrentUrl ''http://a.com''), (100, TextDone)]"
    unfolding run_progress_events [OF bare_load ne] bare_visited
    unfolding bare_urls
    by (simp add: percent_0 ut)
  then show ?thesis
    by (simp add: bare_load bare_urls bare_env_def)
qed

text \<open>
  C4, amended. For a workbook with \<open>N \<ge> 1\<close> URL cells that all hold strings, a run that is
  never stopped emits \<open>N + 1\<close> progress events: one for each URL cell, with the percentage
  \<^verbatim>\<open>int((i / N) * 100)\<close> of its position \<open>i\<close>, and a closing one with 100. The
  percentages never decrease and the last one is 100.
\<close>

theorem progress_events_of_complete_run:
  assumes "load_workbook e = Inr wb"
    and "stop_after e = None"
    and "urls_to_shorten wb \<noteq> []"
    and "\<forall>r \<in> set (urls_to_shorten wb). \<exists>u. cells wb (r, 2) = PStr u"
  shows "length (progress_events (run filepath api_key e)) = Suc (length (urls_to_shorten wb)) \<and>
         map fst (progress_events (run filepath api_key e)) =
           map (\<lambda>i. percent i (length (urls_to_shorten wb))) [0 ..< length (urls_to_shorten wb)] @ [100] \<and>
         sorted (map fst (progress_events (run filepath api_key e))) \<and>
         fst (last (progress_events (run filepath api_key e))) = 100"
proof -
  let ?us = "urls_to_shorten wb"
  let ?n = "length ?us"
  have v: "visited e wb 0 ?us = ?us"
    using assms(2,4) by (rule visited_all)
  have pe: "progress_events (run filepath api_key e) =
      map (\<lambda>(j, r). (percent j ?n, CurrentUrl (url_text wb r))) (zip [0 ..< ?n] ?us) @ [(100, TextDone)]"
    unfolding run_progress_events [OF assms(1,3)] v by (simp add: Let_def)
  have "map fst (map (\<lambda>(j, r). (percent j ?n, CurrentUrl (url_text wb r))) (zip [0 ..< ?n] ?us)) =
        map (\<lambda>j. percent j ?n) [0 ..< ?n]"
    by (rule map_fst_zip_pair) simp
  then have mf: "map fst (progress_events (run filepath api_key e)) =
      map (\<lambda>i. percent i ?n) [0 ..< ?n] @ [100]"
    unfolding pe by simp
  have 1: "length (progress_events (run filepath api_key e)) = Suc ?n"
    unfolding pe by simp
  have 3: "sorted (map fst (progress_events (run filepath api_key e)))"
    unfolding mf by (auto simp: sorted_append sorted_percent percent_le_100)
  have 4: "fst (last (progress_events (run filepath api_key e))) = 100"
    unfolding pe by simp
  show ?thesis using 1 mf 3 4 by (intro conjI)
qed

theorem progress_events_of_complete_run_witness:
  "length (progress_events (run ''urls.xlsx'' ''key'' example_env)) = 3 \<and>
   map fst (progress_events (run ''urls.xlsx'' ''key'' example_env)) = [0, 50, 100] \<and>
   sorted (map fst (progress_events (run ''urls.xlsx'' ''key'' example_env)))"
proof -
  have s: "stop_after example_env = None" by (simp add: example_env_def)
  have ne: "urls_to_shorten example_workbook \<noteq> []" by (simp add: example_urls)
  have str: "\<forall>r \<in> set (urls_to_shorten example_workbook). \<exists>u. cells example_workbook (r, 2) = PStr u"
    unfolding example_urls by (simp add: example_workbook_def)
  have p: "percent (Suc 0) (Suc (Suc 0)) = 50" by code_simp
  have u: "[0 ..< 2] = [0, 1::nat]" by (simp add: upt_rec)
  show ?thesis
    using progress_events_of_complete_run [OF example_load s ne str, of "''urls.xlsx''" "''key''"]
    by (simp add: example_urls u p percent_0)
qed

text \<open>
  C6, as stated, fails: an exception that is not a request error and is raised inside the
  inner \<^verbatim>\<open>try\<close> (here the answer is a list, which has no \<^verbatim>\<open>get\<close>) is caught by
  the inner handler. The run logs it, goes on with the next row, saves the workbook and
  ends with the message of a completed run.
\<close>

theorem row_exception_counterexample:
  "http_get garbled_env 2 = Inr (JNonObject ''list'') \<and>
   log_lines (run ''urls.xlsx'' ''key'' garbled_env) =
     [LogError ''http://a.com'' (exn_text (attribute_error ''list'')),
      LogFailure ''http://b.com'' (Some (PStr ''bad url''))] \<and>
   finished_messages (run ''urls.xlsx'' ''key'' garbled_env) = [Completed ''urls.xlsx''] \<and>
   save_calls (run ''urls.xlsx'' ''key'' garbled_env) = [''urls.xlsx''] \<and>
   saved (run ''urls.xlsx'' ''key'' garbled_env) \<noteq> None"
proof -
  have ne: "urls_to_shorten example_workbook \<noteq> []" by (simp add: example_urls)
  have run: "is_running garbled_env j" for j
    by (simp add: is_running_def garbled_env_def example_env_def)
  have se: "save_error garbled_env = None"
    by (simp add: garbled_env_def example_env_def)
  have g: "http_get garbled_env 2 = Inr (JNonObject ''list'')"
    by (simp add: garbled_env_def)
  have logs: "log_lines (run ''urls.xlsx'' ''key'' garbled_env) =
     [LogError ''http://a.com'' (exn_text (attribute_error ''list'')),
      LogFailure ''http://b.com'' (Some (PStr ''bad url''))]"
    unfolding run_log_lines [OF garbled_load] garbled_visited
    by (simp add: row_log_def url_text_def garbled_env_def example_env_def example_workbook_def
          py_get_def attribute_error_def)
  have fin: "finished_messages (run ''urls.xlsx'' ''key'' garbled_env) = [Completed ''urls.xlsx'']"
    using run_finished_messages [OF garbled_load ne, of "''urls.xlsx''" "''key''"]
      garbled_visited example_urls run se
    by simp
  have saves: "save_calls (run ''urls.xlsx'' ''key'' garbled_env) = [''urls.xlsx'']"
    using run_save_calls [OF garbled_load ne, of "''urls.xlsx''" "''key''"]
      garbled_visited example_urls run
    by simp
  obtain w where w: "memory (run ''urls.xlsx'' ''key'' garbled_env) = Some w"
    using run_memory [OF garbled_load, of "''urls.xlsx''" "''key''"] by blast
  have sv: "saved (run ''urls.xlsx'' ''key'' garbled_env) \<noteq> None"
    using run_saved [OF garbled_load, of "''urls.xlsx''" "''key''"]
      garbled_visited example_urls run se w
    by simp
  show ?thesis using g logs fin saves sv by (intro conjI)
qed

text \<open>
  C6, amended. An exception other than \<^verbatim>\<open>FileNotFoundError\<close> that is raised outside
  the inner \<^verbatim>\<open>try\<close> aborts the run with the generic message for that exception as its
  only terminal message, and nothing is written to the file:
  \<^item> raised by loading the workbook, it leaves that message as the only event;
  \<^item> raised by the progress signal, for the first URL cell that holds a value other than
    a string and is reached before the worker is stopped, it ends the run after the rows
    before that cell: no closing progress event, no call of save;
  \<^item> raised by saving, after a loop over URL cells that all hold strings and that nobody
    stopped, it leaves the workbook a save without error would have written in memory only.

  An exception that is raised inside the inner \<^verbatim>\<open>try\<close> of a requested row and is not
  a \<^verbatim>\<open>RequestException\<close> (raised by the request, by \<^verbatim>\<open>get\<close> on an answer that is
  not a dictionary, or by the assignment to the output cell) does not abort the run: the
  log line of the row is the error line of that exception, the output cell of the row
  holds what it held when the workbook was loaded, the next URL row is requested as in C5,
  and the requests, the terminal message and the call of save are the same as after any
  other outcome of the request of that row.
\<close>

theorem exception_outside_row_aborts:
  "(load_workbook e = Inl x \<and> (\<forall>m. x \<noteq> FileNotFoundError m) \<longrightarrow>
      events (run filepath api_key e) = [Finished (Unexpected (exn_text x))] \<and>
      memory (run filepath api_key e) = None \<and>
      saved (run filepath api_key e) = None) \<and>
   (load_workbook e = Inr wb \<and> k < length (urls_to_shorten wb) \<and> is_running e k \<and>
    (\<forall>j<k. \<exists>u. cells wb (urls_to_shorten wb ! j, 2) = PStr u) \<and>
    (\<forall>u. cells wb (urls_to_shorten wb ! k, 2) \<noteq> PStr u) \<longrightarrow>
      finished_messages (run filepath api_key e) =
        [Unexpected (exn_text (emit_type_error (cells wb (urls_to_shorten wb ! k, 2))))] \<and>
      last (events (run filepath api_key e)) =
        Finished (Unexpected (exn_text (emit_type_error (cells wb (urls_to_shorten wb ! k, 2))))) \<and>
      length (requests (run filepath api_key e)) = k \<and>
      length (log_lines (run filepath api_key e)) = k \<and>
      length (progress_events (run filepath api_key e)) = k \<and>
      save_calls (run filepath api_key e) = [] \<and>
      memory (run filepath api_key e) \<noteq> None \<and>
      saved (run filepath api_key e) = None) \<and>
   (load_workbook e = Inr wb \<and> urls_to_shorten wb \<noteq> [] \<and>
    (\<forall>r \<in> set (urls_to_shorten wb). \<exists>u. cells wb (r, 2) = PStr u) \<and>
    is_running e (length (urls_to_shorten wb)) \<and>
    save_error e = Some x \<and> (\<forall>m. x \<noteq> FileNotFoundError m) \<longrightarrow>
      finished_messages (run filepath api_key e) = [Unexpected (exn_text x)] \<and>
      last (events (run filepath api_key e)) = Finished (Unexpected (exn_text x)) \<and>
      length (requests (run filepath api_key e)) = length (urls_to_shorten wb) \<and>
      save_calls (run filepath api_key e) = [filepath] \<and>
      saved (run filepath api_key e) = None \<and>
      memory (run filepath api_key e) \<noteq> None \<and>
      memory (run filepath api_key e) = saved (run filepath api_key (e\<lparr>save_error := None\<rparr>))) \<and>
   (load_workbook e = Inr wb \<and> k < length (requests (run filepath api_key e)) \<and>
    r = urls_to_shorten wb ! k \<and>
    (http_get e r = Inl x \<and> (\<forall>m. x \<noteq> RequestException m) \<or>
     (\<exists>ty. http_get e r = Inr (JNonObject ty) \<and> x = attribute_error ty) \<or>
     (\<exists>response_json. http_get e r = Inr (JObject response_json) \<and>
        py_get response_json ''status'' = PInt 200 \<and>
        bind_value (py_get response_json ''shorturl'') = Inl x)) \<longrightarrow>
      (\<exists>url w. cells wb (r, 2) = PStr url \<and> memory (run filepath api_key e) = Some w \<and>
         cells w (r, 3) = cells wb (r, 3) \<and>
         log_lines (run filepath api_key e) ! k = LogError url (exn_text x)) \<and>
      length (log_lines (run filepath api_key e)) = length (requests (run filepath api_key e)) \<and>
      (Suc k < length (urls_to_shorten wb) \<and> is_running e (Suc k) \<and>
       (\<exists>u. cells wb (urls_to_shorten wb ! Suc k, 2) = PStr u) \<longrightarrow>
         Suc k < length (requests (run filepath api_key e))) \<and>
      (\<forall>y. requests (run filepath api_key (e\<lparr>http_get := (http_get e)(r := y)\<rparr>)) =
             requests (run filepath api_key e) \<and>
           finished_messages (run filepath api_key (e\<lparr>http_get := (http_get e)(r := y)\<rparr>)) =
             finished_messages (run filepath api_key e) \<and>
           save_calls (run filepath api_key (e\<lparr>http_get := (http_get e)(r := y)\<rparr>)) =
             save_calls (run filepath api_key e)))"
proof -
  let ?R = "run filepath api_key e"
  let ?us = "urls_to_shorten wb"
  let ?vs = "visited e wb 0 ?us"
  have A: "events ?R = [Finished (Unexpected (exn_text x))] \<and> memory ?R = None \<and> saved ?R = None"
    if "load_workbook e = Inl x" and nf: "\<forall>m. x \<noteq> FileNotFoundError m"
    using that run_handler_unexpected [OF nf] by (simp add: run_def run_body_def)
  have B: "finished_messages ?R = [Unexpected (exn_text (emit_type_error (cells wb (?us ! k, 2))))] \<and>
      last (events ?R) = Finished (Unexpected (exn_text (emit_type_error (cells wb (?us ! k, 2))))) \<and>
      length (requests ?R) = k \<and> length (log_lines ?R) = k \<and> length (progress_events ?R) = k \<and>
      save_calls ?R = [] \<and> memory ?R \<noteq> None \<and> saved ?R = None"
    if load: "load_workbook e = Inr wb" and k: "k < length ?us" and run: "is_running e k"
      and str: "\<forall>j<k. \<exists>u. cells wb (?us ! j, 2) = PStr u"
      and bad: "\<forall>u. cells wb (?us ! k, 2) \<noteq> PStr u"
  proof -
    have ne: "?us \<noteq> []" using k by auto
    have len: "length ?vs = k"
      using visited_until [OF k _ str bad, of e 0] run by simp
    have h: "run_handler (emit_type_error v) = Unexpected (exn_text (emit_type_error v))" for v
      by (simp add: emit_type_error_def)
    have 1: "finished_messages ?R = [Unexpected (exn_text (emit_type_error (cells wb (?us ! k, 2))))]"
      using run_finished_messages [OF load ne, of filepath api_key] len k run h
      by (simp add: Let_def)
    have 2: "last (events ?R) = Finished (Unexpected (exn_text (emit_type_error (cells wb (?us ! k, 2)))))"
      unfolding run_events [OF load ne] using len k run h by (simp add: run_tail_def)
    have 3: "length (requests ?R) = k"
      using run_requests_length [OF load, of filepath api_key] len by simp
    have 4: "length (log_lines ?R) = k"
      using run_log_lines_length [OF load, of filepath api_key] 3 by simp
    have 5: "length (progress_events ?R) = k"
      unfolding run_progress_events [OF load ne] using len k run by (simp add: Let_def)
    have 6: "save_calls ?R = []"
      using run_save_calls [OF load ne, of filepath api_key] len k run by (simp add: Let_def)
    have 7: "memory ?R \<noteq> None"
      using run_memory [OF load, of filepath api_key] by auto
    have 8: "saved ?R = None"
      using run_saved [OF load, of filepath api_key] len k by simp
    show ?thesis using 1 2 3 4 5 6 7 8 by (intro conjI)
  qed
  have C: "finished_messages ?R = [Unexpected (exn_text x)] \<and>
      last (events ?R) = Finished (Unexpected (exn_text x)) \<and>
      length (requests ?R) = length ?us \<and> save_calls ?R = [filepath] \<and> saved ?R = None \<and>
      memory ?R \<noteq> None \<and>
      memory ?R = saved (run filepath api_key (e\<lparr>save_error := None\<rparr>))"
    if load: "load_workbook e = Inr wb" and ne: "?us \<noteq> []"
      and str: "\<forall>r \<in> set ?us. \<exists>u. cells wb (r, 2) = PStr u"
      and run: "is_running e (length ?us)"
      and se: "save_error e = Some x" and nf: "\<forall>m. x \<noteq> FileNotFoundError m"
  proof -
    let ?e' = "e\<lparr>save_error := None\<rparr>"
    have v: "?vs = ?us"
      using visited_all_running [of e 0 ?us wb] run str by simp
    note h = run_handler_unexpected [OF nf]
    have 1: "finished_messages ?R = [Unexpected (exn_text x)]"
      using run_finished_messages [OF load ne, of filepath api_key] v run se h
      by (simp add: Let_def)
    have 2: "last (events ?R) = Finished (Unexpected (exn_text x))"
      unfolding run_events [OF load ne] using v run se h by (simp add: run_tail_def)
    have 3: "length (requests ?R) = length ?us"
      using run_requests_length [OF load, of filepath api_key] v by simp
    have 4: "save_calls ?R = [filepath]"
      using run_save_calls [OF load ne, of filepath api_key] v run by (simp add: Let_def)
    have 5: "saved ?R = None"
      using run_saved [OF load, of filepath api_key] se by simp
    have 6: "memory ?R \<noteq> None"
      using run_memory [OF load, of filepath api_key] by auto
    have l': "load_workbook ?e' = Inr wb" using load by simp
    have v': "visited ?e' wb 0 ?us = ?us"
      using visited_cong [of ?e' e ?us wb wb 0] v by simp
    have run': "is_running ?e' (length ?us)"
      using is_running_cong [of ?e' e] run by simp
    have "saved (run filepath api_key ?e') = memory (run filepath api_key ?e')"
      using run_saved [OF l', of filepath api_key] v' run' ne by simp
    then have 7: "memory ?R = saved (run filepath api_key ?e')"
      using run_memory_save_error [OF load, of filepath api_key None] by simp
    show ?thesis using 1 2 3 4 5 6 7 by (intro conjI)
  qed
  have D: "(\<exists>url w. cells wb (r, 2) = PStr url \<and> memory ?R = Some w \<and>
         cells w (r, 3) = cells wb (r, 3) \<and> log_lines ?R ! k = LogError url (exn_text x)) \<and>
      length (log_lines ?R) = length (requests ?R) \<and>
      (Suc k < length ?us \<and> is_running e (Suc k) \<and> (\<exists>u. cells wb (?us ! Suc k, 2) = PStr u) \<longrightarrow>
         Suc k < length (requests ?R)) \<and>
      (\<forall>y. requests (run filepath api_key (e\<lparr>http_get := (http_get e)(r := y)\<rparr>)) = requests ?R \<and>
           finished_messages (run filepath api_key (e\<lparr>http_get := (http_get e)(r := y)\<rparr>)) =
             finished_messages ?R \<and>
           save_calls (run filepath api_key (e\<lparr>http_get := (http_get e)(r := y)\<rparr>)) = save_calls ?R)"
    if load: "load_workbook e = Inr wb" and k: "k < length (requests ?R)" and r: "r = ?us ! k"
      and raised: "http_get e r = Inl x \<and> (\<forall>m. x \<noteq> RequestException m) \<or>
         (\<exists>ty. http_get e r = Inr (JNonObject ty) \<and> x = attribute_error ty) \<or>
         (\<exists>response_json. http_get e r = Inr (JObject response_json) \<and>
            py_get response_json ''status'' = PInt 200 \<and>
            bind_value (py_get response_json ''shorturl'') = Inl x)"
  proof -
    obtain url w where row:
      "cells wb (r, 2) = PStr url"
      "log_lines ?R ! k = row_log e r url"
      "memory ?R = Some w"
      "cells w (r, 3) = (case row_write e r of None \<Rightarrow> cells wb (r, 3) | Some v \<Rightarrow> v)"
      using requested_row [OF load k r] by blast
    have rl: "row_log e r url = LogError url (exn_text x)"
      using raised
    proof (elim disjE conjE exE)
      assume "http_get e r = Inl x" "\<forall>m. x \<noteq> RequestException m"
      then show ?thesis by (simp add: row_log_def row_handler_unexpected)
    next
      fix ty assume "http_get e r = Inr (JNonObject ty)" "x = attribute_error ty"
      then show ?thesis by (simp add: row_log_def attribute_error_def)
    next
      fix response_json
      assume "http_get e r = Inr (JObject response_json)"
        "py_get response_json ''status'' = PInt 200"
        "bind_value (py_get response_json ''shorturl'') = Inl x"
      then show ?thesis by (simp add: row_log_def bind_value_handler)
    qed
    have rw: "row_write e r = None"
      using raised by (auto simp: row_write_def)
    have 1: "\<exists>url w. cells wb (r, 2) = PStr url \<and> memory ?R = Some w \<and>
         cells w (r, 3) = cells wb (r, 3) \<and> log_lines ?R ! k = LogError url (exn_text x)"
      using row rl rw by auto
    note 2 = run_log_lines_length [OF load, of filepath api_key]
    have 3: "Suc k < length ?us \<and> is_running e (Suc k) \<and> (\<exists>u. cells wb (?us ! Suc k, 2) = PStr u) \<longrightarrow>
         Suc k < length (requests ?R)"
      using next_row_requested [OF load k] by blast
    have 4: "\<forall>y. requests (run filepath api_key (e\<lparr>http_get := (http_get e)(r := y)\<rparr>)) = requests ?R \<and>
           finished_messages (run filepath api_key (e\<lparr>http_get := (http_get e)(r := y)\<rparr>)) =
             finished_messages ?R \<and>
           save_calls (run filepath api_key (e\<lparr>http_get := (http_get e)(r := y)\<rparr>)) = save_calls ?R"
      using row_outcome_independent [OF load] by blast
    show ?thesis using 1 2 3 4 by (intro conjI)
  qed
  show ?thesis
    apply (rule conjI)
     apply (rule impI, elim conjE, (rule A; assumption))
    apply (rule conjI)
     apply (rule impI, elim conjE, (rule B; assumption))
    apply (rule conjI)
     apply (rule impI, elim conjE, (rule C; assumption))
    apply (rule impI, elim conjE, (rule D; assumption))
    done
qed

theorem exception_outside_row_aborts_witness:
  "events (run ''urls.xlsx'' ''key'' broken_env) = [Finished (Unexpected ''File is not a zip file'')] \<and>
   saved (run ''urls.xlsx'' ''key'' broken_env) = None \<and>
   cells numeric_workbook (3, 2) = PInt 42 \<and>
   finished_messages (run ''urls.xlsx'' ''key'' numeric_env) =
     [Unexpected (''ShortenWorker.progress_updated[int, str].emit(): argument 2 has unexpected type ''
                    @ [CHR 0x27] @ ''int'' @ [CHR 0x27])] \<and>
   length (requests (run ''urls.xlsx'' ''key'' numeric_env)) = 1 \<and>
   length (progress_events (run ''urls.xlsx'' ''key'' numeric_env)) = 1 \<and>
   save_calls (run ''urls.xlsx'' ''key'' numeric_env) = [] \<and>
   saved (run ''urls.xlsx'' ''key'' numeric_env) = None \<and>
   map_option (\<lambda>w. cells w (2, 3)) (memory (run ''urls.xlsx'' ''key'' numeric_env)) =
     Some (PStr ''http://x/1'') \<and>
   save_error locked_env = Some (OtherException ''permission denied'') \<and>
   finished_messages (run ''urls.xlsx'' ''key'' locked_env) = [Unexpected ''permission denied''] \<and>
   save_calls (run ''urls.xlsx'' ''key'' locked_env) = [''urls.xlsx''] \<and>
   saved (run ''urls.xlsx'' ''key'' locked_env) = None \<and>
   map_option (\<lambda>w. cells w (2, 3)) (memory (run ''urls.xlsx'' ''key'' locked_env)) =
     Some (PStr ''http://x/1'') \<and>
   http_get garbled_env 2 = Inr (JNonObject ''list'') \<and>
   log_lines (run ''urls.xlsx'' ''key'' garbled_env) ! 0 =
     LogError ''http://a.com''
       ([CHR 0x27] @ ''list'' @ [CHR 0x27] @ '' object has no attribute '' @ [CHR 0x27] @ ''get'' @ [CHR 0x27]) \<and>
   length (requests (run ''urls.xlsx'' ''key'' garbled_env)) = 2"
proof -
  have a: "events (run ''urls.xlsx'' ''key'' broken_env) =
             [Finished (Unexpected ''File is not a zip file'')] \<and>
           saved (run ''urls.xlsx'' ''key'' broken_env) = None"
    using exception_outside_row_aborts
      [where e = broken_env and x = "OtherException ''File is not a zip file''"
         and filepath = "''urls.xlsx''" and api_key = "''key''", THEN conjunct1]
    by (simp add: broken_env_def)
  have n42: "cells numeric_workbook (3, 2) = PInt 42"
    by (simp add: numeric_workbook_def)
  have nrun: "is_running numeric_env 1"
    by (simp add: is_running_def numeric_env_def example_env_def)
  have nstr: "\<forall>j<1. \<exists>u. cells numeric_workbook (urls_to_shorten numeric_workbook ! j, 2) = PStr u"
    unfolding numeric_urls by (simp add: numeric_workbook_def)
  have nbad: "\<forall>u. cells numeric_workbook (urls_to_shorten numeric_workbook ! 1, 2) \<noteq> PStr u"
    unfolding numeric_urls by (simp add: numeric_workbook_def)
  have nk: "1 < length (urls_to_shorten numeric_workbook)"
    by (simp add: numeric_urls)
  have b: "finished_messages (run ''urls.xlsx'' ''key'' numeric_env) =
             [Unexpected (''ShortenWorker.progress_updated[int, str].emit(): argument 2 has unexpected type ''
                            @ [CHR 0x27] @ ''int'' @ [CHR 0x27])] \<and>
           length (requests (run ''urls.xlsx'' ''key'' numeric_env)) = 1 \<and>
           length (progress_events (run ''urls.xlsx'' ''key'' numeric_env)) = 1 \<and>
           save_calls (run ''urls.xlsx'' ''key'' numeric_env) = [] \<and>
           saved (run ''urls.xlsx'' ''key'' numeric_env) = None"
    using exception_outside_row_aborts
      [where e = numeric_env and wb = numeric_workbook and k = 1
         and filepath = "''urls.xlsx''" and api_key = "''key''", THEN conjunct2, THEN conjunct1]
      numeric_load nk nrun nstr nbad
    by (simp add: numeric_urls n42 emit_type_error_def quoted_def)
  obtain wn where wn: "memory (run ''urls.xlsx'' ''key'' numeric_env) = Some wn"
    "cells wn = written numeric_env (cells numeric_workbook) [2]"
    using run_memory [OF numeric_load, of "''urls.xlsx''" "''key''"] numeric_visited by auto
  have "cells wn (2, 3) = PStr ''http://x/1''"
    unfolding wn(2) using example_short_url
    by (simp add: written_def row_write_def numeric_env_def example_env_def py_get_def
             del: bind_value.simps)
  then have mn: "map_option (\<lambda>w. cells w (2, 3)) (memory (run ''urls.xlsx'' ''key'' numeric_env)) =
      Some (PStr ''http://x/1'')"
    using wn(1) by simp
  have lrun: "is_running locked_env (length (urls_to_shorten example_workbook))"
    by (simp add: is_running_def locked_env_def example_env_def)
  have lse: "save_error locked_env = Some (OtherException ''permission denied'')"
    by (simp add: locked_env_def)
  have ne: "urls_to_shorten example_workbook \<noteq> []" by (simp add: example_urls)
  have str: "\<forall>r \<in> set (urls_to_shorten example_workbook). \<exists>u. cells example_workbook (r, 2) = PStr u"
    unfolding example_urls by (simp add: example_workbook_def)
  have c: "finished_messages (run ''urls.xlsx'' ''key'' locked_env) = [Unexpected ''permission denied''] \<and>
           save_calls (run ''urls.xlsx'' ''key'' locked_env) = [''urls.xlsx''] \<and>
           saved (run ''urls.xlsx'' ''key'' locked_env) = None"
    using exception_outside_row_aborts
      [where e = locked_env and wb = example_workbook and x = "OtherException ''permission denied''"
         and filepath = "''urls.xlsx''" and api_key = "''key''",
       THEN conjunct2, THEN conjunct2, THEN conjunct1]
      locked_load ne str lrun lse
    by simp
  obtain w where w: "memory (run ''urls.xlsx'' ''key'' locked_env) = Some w"
    "cells w = written locked_env (cells example_workbook) [2, 3]"
    using run_memory [OF locked_load, of "''urls.xlsx''" "''key''"] locked_visited by auto
  have "cells w (2, 3) = PStr ''http://x/1''"
    unfolding w(2) using example_short_url
    by (simp add: written_def row_write_def locked_env_def example_env_def py_get_def
             del: bind_value.simps)
  then have m: "map_option (\<lambda>w. cells w (2, 3)) (memory (run ''urls.xlsx'' ''key'' locked_env)) =
      Some (PStr ''http://x/1'')"
    using w(1) by simp
  have g: "http_get garbled_env 2 = Inr (JNonObject ''list'')"
    by (simp add: garbled_env_def)
  have gn: "length (requests (run ''urls.xlsx'' ''key'' garbled_env)) = 2"
    by (simp add: run_requests_length [OF garbled_load] garbled_visited)
  have gk: "0 < length (requests (run ''urls.xlsx'' ''key'' garbled_env))"
    using gn by simp
  have "\<exists>url w. cells example_workbook (2, 2) = PStr url \<and>
          memory (run ''urls.xlsx'' ''key'' garbled_env) = Some w \<and>
          cells w (2, 3) = cells example_workbook (2, 3) \<and>
          log_lines (run ''urls.xlsx'' ''key'' garbled_env) ! 0 =
            LogError url (exn_text (attribute_error ''list''))"
    by (rule exception_outside_row_aborts
          [where e = garbled_env and wb = example_workbook and k = 0 and r = 2
             and x = "attribute_error ''list''"
             and filepath = "''urls.xlsx''" and api_key = "''key''",
           THEN conjunct2, THEN conjunct2, THEN conjunct2, THEN mp, THEN conjunct1])
       (use garbled_load gk g in \<open>simp add: example_urls\<close>)
  then have d: "log_lines (run ''urls.xlsx'' ''key'' garbled_env) ! 0 =
     LogError ''http://a.com''
       ([CHR 0x27] @ ''list'' @ [CHR 0x27] @ '' object has no attribute '' @ [CHR 0x27] @ ''get'' @ [CHR 0x27])"
    by (auto simp: example_workbook_def attribute_error_def quoted_def)
  show ?thesis using a n42 b mn lse c m g d gn by (intro conjI) simp_all
qed

end
